theory Spec2Isabelle
  imports Main "HOL-Library.Sublist"
begin

section \<open>Python strings and integers\<close>

text \<open>
  A Python \<open>str\<close> is modelled as a \<open>string\<close> whose characters are the code points
  0 to 255; a Python \<open>int\<close> is an \<open>int\<close>. The message \<open>str(e)\<close> of a raised
  exception is a string.
\<close>

type_synonym exn = string

definition quote :: string where
  "quote = [CHR 0x27]"

definition newline :: string where
  "newline = [CHR 0x0A]"

text \<open>\<open>str.isspace\<close> on one character, for the code points below 256.\<close>

definition isspace :: "char \<Rightarrow> bool" where
  "isspace c =
     (let n = of_char c :: nat
      in (9 \<le> n \<and> n \<le> 13) \<or> (28 \<le> n \<and> n \<le> 32) \<or> n = 133 \<or> n = 160)"

text \<open>\<open>str.strip()\<close> without argument.\<close>

definition strip :: "string \<Rightarrow> string" where
  "strip v = rev (dropWhile isspace (rev (dropWhile isspace v)))"

text \<open>
  The decimal digits of an integer, with a minus sign when negative: what \<open>str(n)\<close>
  returns when it returns.
\<close>

definition digit_char :: "nat \<Rightarrow> char" where
  "digit_char d = ''0123456789'' ! d"

fun str_nat :: "nat \<Rightarrow> string" where
  "str_nat n = (if n < 10 then [digit_char n] else str_nat (n div 10) @ [digit_char (n mod 10)])"

declare str_nat.simps [simp del]

definition str_int :: "int \<Rightarrow> string" where
  "str_int i = (if i < 0 then CHR ''-'' # str_nat (nat (- i)) else str_nat (nat i))"

text \<open>
  \<open>str(n)\<close>, also when an f-string formats an integer: it raises \<open>ValueError\<close> for an
  integer of more digits than \<open>sys.get_int_max_str_digits()\<close>, 4300 unless configured.
\<close>

definition int_max_str_digits :: nat where
  "int_max_str_digits = 4300"

definition int_str_limit_error :: exn where
  "int_str_limit_error =
     ''Exceeds the limit (4300 digits) for integer string conversion; '' @
     ''use sys.set_int_max_str_digits() to increase the limit''"

definition str_of_int :: "int \<Rightarrow> exn + string" where
  "str_of_int i =
     (if int_max_str_digits < length (str_nat (nat \<bar>i\<bar>)) then Inl int_str_limit_error
      else Inr (str_int i))"

text \<open>\<open>sep.join(parts)\<close>.\<close>

fun join :: "string \<Rightarrow> string list \<Rightarrow> string" where
  "join sep [] = []"
| "join sep [x] = x"
| "join sep (x # y # ys) = x @ sep @ join sep (y # ys)"

text \<open>\<open>s.split(sep)\<close> for a one-character separator.\<close>

fun split_sep :: "char \<Rightarrow> string \<Rightarrow> string list" where
  "split_sep sep [] = [[]]"
| "split_sep sep (c # cs) =
     (if c = sep then [] # split_sep sep cs
      else (case split_sep sep cs of
              [] \<Rightarrow> [[c]]
            | w # ws \<Rightarrow> (c # w) # ws))"

text \<open>\<open>s.rfind(c)\<close>: the index of the last occurrence of \<open>c\<close>, or -1.\<close>

definition rfind :: "char \<Rightarrow> string \<Rightarrow> int" where
  "rfind c s =
     (if c \<in> set s then int (length s) - 1 - int (length (takeWhile (\<lambda>x. x \<noteq> c) (rev s)))
      else - 1)"

section \<open>Parameter validation: \<open>PDFSplitParams\<close>\<close>

record params =
  file_path :: string
  start_page :: int
  end_page :: int
  save_pdf :: bool

text \<open>
  One line of a validation error: the field, what went wrong (a \<open>ValueError\<close> raised by
  a field validator with its message, or the violated bound of \<open>ge=\<close>), and the input.
\<close>

datatype input_value = Str_input string | Int_input int

datatype error_kind = Value_error string | Greater_than_equal int

datatype line_error = Line_error string error_kind input_value

text \<open>The field validator of \<open>file_path\<close>: \<open>Inl\<close> is the message of the raised \<open>ValueError\<close>.\<close>

definition file_path_must_not_be_empty :: "string \<Rightarrow> exn + string" where
  "file_path_must_not_be_empty v =
     (if strip v = [] then Inl ''file_path cannot be empty or whitespace only'' else Inr v)"

text \<open>
  The field validator of \<open>end_page\<close>. Its first argument is \<open>info.data.get('start_page')\<close>:
  \<open>None\<close> when \<open>start_page\<close> itself did not validate.
\<close>

definition end_page_must_be_greater_or_equal_to_start :: "int option \<Rightarrow> int \<Rightarrow> exn + int" where
  "end_page_must_be_greater_or_equal_to_start start v =
     (case start of
        Some s \<Rightarrow>
          if v < s then Inl ''end_page must be greater than or equal to start_page'' else Inr v
      | None \<Rightarrow> Inr v)"

text \<open>
  Constructing the model. The fields are validated in declaration order and every failure
  is collected; a field validator runs only after its field's own constraint (\<open>ge=1\<close>)
  holds.
\<close>

definition validate_file_path :: "string \<Rightarrow> line_error list" where
  "validate_file_path fp =
     (case file_path_must_not_be_empty fp of
        Inl m \<Rightarrow> [Line_error ''file_path'' (Value_error m) (Str_input fp)]
      | Inr _ \<Rightarrow> [])"

definition validate_start_page :: "int \<Rightarrow> line_error list" where
  "validate_start_page s =
     (if 1 \<le> s then [] else [Line_error ''start_page'' (Greater_than_equal 1) (Int_input s)])"

definition validate_end_page :: "int \<Rightarrow> int \<Rightarrow> line_error list" where
  "validate_end_page s e =
     (if 1 \<le> e then
        (case end_page_must_be_greater_or_equal_to_start (if 1 \<le> s then Some s else None) e of
           Inl m \<Rightarrow> [Line_error ''end_page'' (Value_error m) (Int_input e)]
         | Inr _ \<Rightarrow> [])
      else [Line_error ''end_page'' (Greater_than_equal 1) (Int_input e)])"

definition PDFSplitParams :: "string \<Rightarrow> int \<Rightarrow> int \<Rightarrow> bool \<Rightarrow> line_error list + params" where
  "PDFSplitParams fp s e sv =
     (let errors = validate_file_path fp @ validate_start_page s @ validate_end_page s e
      in if errors = [] then
           Inr \<lparr>file_path = fp, start_page = s, end_page = e, save_pdf = sv\<rparr>
         else Inl errors)"

section \<open>Paths: \<open>pathlib\<close> on a POSIX system\<close>

text \<open>
  A parsed path is its root (empty, one slash or two slashes) and its components.
  Parsing drops empty components and single dots; exactly two leading slashes are kept
  as the root, any other number of them is the root of one slash.
\<close>

record pure_path =
  path_root :: string
  path_parts :: "string list"

definition splitroot :: "string \<Rightarrow> string \<times> string" where
  "splitroot part =
     (if part \<noteq> [] \<and> hd part = CHR ''/'' then
        (let stripped_part = dropWhile (\<lambda>c. c = CHR ''/'') part
         in if length part - length stripped_part = 2 then (''//'', stripped_part)
            else (''/'', stripped_part))
      else ([], part))"

definition Path :: "string \<Rightarrow> pure_path" where
  "Path s =
     (case splitroot s of
        (root, rel) \<Rightarrow>
          \<lparr>path_root = root,
           path_parts = filter (\<lambda>x. x \<noteq> [] \<and> x \<noteq> ''.'') (split_sep (CHR ''/'') rel)\<rparr>)"

text \<open>\<open>str(path)\<close>, which is also what \<open>open(path, ...)\<close> receives.\<close>

definition str_path :: "pure_path \<Rightarrow> string" where
  "str_path p =
     (let s = path_root p @ join ''/'' (path_parts p) in if s = [] then ''.'' else s)"

definition path_name :: "pure_path \<Rightarrow> string" where
  "path_name p = (if path_parts p = [] then [] else last (path_parts p))"

definition path_suffix :: "pure_path \<Rightarrow> string" where
  "path_suffix p =
     (let name = path_name p; i = rfind (CHR ''.'') name
      in if 0 < i \<and> i < int (length name) - 1 then drop (nat i) name else [])"

definition path_stem :: "pure_path \<Rightarrow> string" where
  "path_stem p =
     (let name = path_name p; i = rfind (CHR ''.'') name
      in if 0 < i \<and> i < int (length name) - 1 then take (nat i) name else name)"

definition path_parent :: "pure_path \<Rightarrow> pure_path" where
  "path_parent p = (if path_parts p = [] then p else p\<lparr>path_parts := butlast (path_parts p)\<rparr>)"

text \<open>\<open>a / b\<close>: an absolute \<open>b\<close> replaces \<open>a\<close>, a relative one is appended.\<close>

definition truediv :: "pure_path \<Rightarrow> pure_path \<Rightarrow> pure_path" where
  "truediv a b = (if path_root b \<noteq> [] then b else a\<lparr>path_parts := path_parts a @ path_parts b\<rparr>)"

section \<open>The collaborators: filesystem and PDF codec\<close>

text \<open>
  A page of an opened document answers the two calls made on it: \<open>extract_text()\<close>
  returns the text or raises, \<open>writer.add_page(page)\<close> returns or raises
  (\<open>Some\<close> message).
\<close>

record page =
  extract_text :: "exn + string"
  add_page :: "exn option"

text \<open>
  An opened document is the list of its pages. Their number is what \<open>len(reader.pages)\<close>
  returns, an index-sized integer: at most \<open>sys.maxsize\<close>.
\<close>

definition maxsize :: nat where
  "maxsize = 2 ^ 63 - 1"

typedef document = "{ps :: page list. length ps \<le> maxsize}"
  morphisms pages_of document_of
  by (rule exI [of _ "[]"]) simp

text \<open>
  The environment answers every call that leaves the program:
  \<open>os.path.exists(p)\<close>; \<open>PdfReader(p)\<close> with \<open>reader.pages\<close>, the document or the message
  of the exception raised; \<open>open(p, "wb")\<close>; \<open>writer.write(f)\<close> with the closing of \<open>f\<close>;
  and \<open>str(e)\<close> of the validation error raised for a list of line errors.
\<close>

record env =
  validation_error_str :: "line_error list \<Rightarrow> string"
  path_exists :: "string \<Rightarrow> bool"
  pdf_reader :: "string \<Rightarrow> exn + document"
  open_wb :: "string \<Rightarrow> exn option"
  writer_write :: "string \<Rightarrow> page list \<Rightarrow> exn option"

text \<open>The calls made, in order, with their arguments.\<close>

datatype event =
    Path_exists string
  | Reader_open string
  | Get_page int
  | Add_page int
  | Extract_text int
  | Open_wb string
  | Writer_write string "page list"

text \<open>
  \<open>reader.pages[i]\<close>: a negative index counts from the end, an index out of range
  raises \<open>IndexError\<close>.
\<close>

definition get_page :: "page list \<Rightarrow> int \<Rightarrow> exn + page" where
  "get_page pages i =
     (let len_self = int (length pages);
          index = (if i < 0 then len_self + i else i)
      in if index < 0 \<or> len_self \<le> index then Inl ''Sequence index out of range''
         else Inr (pages ! nat index))"

text \<open>\<open>range(a, b)\<close>.\<close>

definition py_range :: "int \<Rightarrow> int \<Rightarrow> int list" where
  "py_range a b = [a..b - 1]"

section \<open>The tool: \<open>open_and_split_pdf\<close>\<close>

text \<open>The local variables of the page loop, with the trace of calls so far.\<close>

record locals =
  trace :: "event list"
  writer :: "page list"
  text_parts :: "string list"

text \<open>
  The message of \<open>logger.info\<close> between the two \<open>try\<close> blocks. An exception raised while
  it is formatted is caught by neither of them.
\<close>

definition splitting_message :: "params \<Rightarrow> exn + string" where
  "splitting_message p =
     (case str_of_int (start_page p) of
        Inl ex \<Rightarrow> Inl ex
      | Inr a \<Rightarrow>
          (case str_of_int (end_page p) of
             Inl ex \<Rightarrow> Inl ex
           | Inr b \<Rightarrow>
               Inr (''Splitting PDF '' @ quote @ file_path p @ quote @ '' from page '' @ a @
                    '' to '' @ b @ ''...'')))"

text \<open>
  One iteration of \<open>for i in range(start_page - 1, end_page)\<close>. A raised exception
  leaves the loop with its message and the trace up to the raising call. The f-string
  \<open>f"--- Page {i + 1} ---\n{page.extract_text()}"\<close> formats the page number before it
  calls \<open>extract_text\<close>.
\<close>

definition loop_body :: "page list \<Rightarrow> int \<Rightarrow> locals \<Rightarrow> (exn \<times> event list) + locals" where
  "loop_body pages i st =
     (let tr1 = trace st @ [Get_page i] in
      case get_page pages i of
        Inl ex \<Rightarrow> Inl (ex, tr1)
      | Inr copied \<Rightarrow>
          let tr2 = tr1 @ [Add_page i] in
          (case add_page copied of
             Some ex \<Rightarrow> Inl (ex, tr2)
           | None \<Rightarrow>
               let tr3 = tr2 @ [Get_page i] in
               (case get_page pages i of
                  Inl ex \<Rightarrow> Inl (ex, tr3)
                | Inr page \<Rightarrow>
                    (case str_of_int (i + 1) of
                       Inl ex \<Rightarrow> Inl (ex, tr3)
                     | Inr number \<Rightarrow>
                         let tr4 = tr3 @ [Extract_text i] in
                         (case extract_text page of
                            Inl ex \<Rightarrow> Inl (ex, tr4)
                          | Inr text \<Rightarrow>
                              Inr \<lparr>trace = tr4,
                                   writer = writer st @ [copied],
                                   text_parts = text_parts st @
                                     [''--- Page '' @ number @ '' ---'' @ newline @ text]\<rparr>)))))"

fun page_loop :: "page list \<Rightarrow> int list \<Rightarrow> locals \<Rightarrow> (exn \<times> event list) + locals" where
  "page_loop pages [] st = Inr st"
| "page_loop pages (i # is) st =
     (case loop_body pages i st of
        Inl raised \<Rightarrow> Inl raised
      | Inr st' \<Rightarrow> page_loop pages is st')"

text \<open>The assignment to \<open>new_file_path\<close>: the path, or the exception of a conversion.\<close>

definition make_new_file_path :: "params \<Rightarrow> exn + pure_path" where
  "make_new_file_path p =
     (case str_of_int (start_page p) of
        Inl ex \<Rightarrow> Inl ex
      | Inr a \<Rightarrow>
          (case str_of_int (end_page p) of
             Inl ex \<Rightarrow> Inl ex
           | Inr b \<Rightarrow>
               Inr (truediv (path_parent (Path (file_path p)))
                      (Path (path_stem (Path (file_path p)) @ ''_pgs_'' @ a @ ''-'' @ b @
                             path_suffix (Path (file_path p)))))))"

text \<open>The \<open>if params.save_pdf:\<close> block: \<open>Some\<close> message when it raises.\<close>

definition save_new_pdf :: "env \<Rightarrow> params \<Rightarrow> locals \<Rightarrow> exn option \<times> event list" where
  "save_new_pdf env p st =
     (case make_new_file_path p of
        Inl ex \<Rightarrow> (Some ex, trace st)
      | Inr path \<Rightarrow>
          (let f = str_path path;
               tr1 = trace st @ [Open_wb f] in
           case open_wb env f of
             Some ex \<Rightarrow> (Some ex, tr1)
           | None \<Rightarrow> (writer_write env f (writer st), tr1 @ [Writer_write f (writer st)])))"

text \<open>
  The \<open>raise ValueError(f"Requested page ...")\<close> of the range check: the message of the
  exception that leaves it, the \<open>ValueError\<close> built or the one of a conversion.
\<close>

definition raise_range_error :: "int \<Rightarrow> int \<Rightarrow> exn" where
  "raise_range_error requested total_pages =
     (case str_of_int requested of
        Inl ex \<Rightarrow> ex
      | Inr a \<Rightarrow>
          (case str_of_int total_pages of
             Inl ex \<Rightarrow> ex
           | Inr b \<Rightarrow>
               ''Requested page '' @ a @ '' exceeds the document length ('' @ b @ '' pages).''))"

text \<open>The body of \<open>with PdfReader(...) as reader:\<close>; \<open>Inl\<close> is a raised exception.\<close>

definition with_reader ::
  "env \<Rightarrow> params \<Rightarrow> page list \<Rightarrow> event list \<Rightarrow> (exn + string) \<times> event list" where
  "with_reader env p pages tr =
     (let total_pages = int (length pages) in
      if end_page p > total_pages then (Inl (raise_range_error (end_page p) total_pages), tr)
      else
        (case page_loop pages (py_range (start_page p - 1) (end_page p))
                \<lparr>trace = tr, writer = [], text_parts = []\<rparr> of
           Inl (ex, tr') \<Rightarrow> (Inl ex, tr')
         | Inr st \<Rightarrow>
             (case (if save_pdf p then save_new_pdf env p st else (None, trace st)) of
                (Some ex, tr') \<Rightarrow> (Inl ex, tr')
              | (None, tr') \<Rightarrow>
                  (Inr (''Content from new PDF:'' @ newline @ newline @
                        join newline (text_parts st)), tr'))))"

text \<open>The body of the second \<open>try:\<close>.\<close>

definition try_split :: "env \<Rightarrow> params \<Rightarrow> (exn + string) \<times> event list" where
  "try_split env p =
     (let tr0 = [Path_exists (file_path p)] in
      if \<not> path_exists env (file_path p) then
        (Inr (''Error: File '' @ quote @ file_path p @ quote @ '' does not exist''), tr0)
      else
        (let tr1 = tr0 @ [Reader_open (file_path p)] in
         case pdf_reader env (file_path p) of
           Inl ex \<Rightarrow> (Inl ex, tr1)
         | Inr reader \<Rightarrow> with_reader env p (pages_of reader) tr1))"

text \<open>How a call of the tool ends: it returns a string, or an exception leaves it.\<close>

datatype outcome = Returned string | Raised exn

text \<open>
  The tool: how the call ends, and the trace of the calls it made. Both \<open>except\<close>
  clauses turn the exception into the returned string; the \<open>logger.info\<close> line between
  the two \<open>try\<close> blocks is guarded by neither.
\<close>

definition open_and_split_pdf ::
  "env \<Rightarrow> string \<Rightarrow> int \<Rightarrow> int \<Rightarrow> bool \<Rightarrow> outcome \<times> event list" where
  "open_and_split_pdf env fp s e sv =
     (case PDFSplitParams fp s e sv of
        Inl errors \<Rightarrow>
          (Returned (''Error: Invalid input parameters - '' @ validation_error_str env errors), [])
      | Inr p \<Rightarrow>
          (case splitting_message p of
             Inl ex \<Rightarrow> (Raised ex, [])
           | Inr logged \<Rightarrow>
               (case try_split env p of
                  (Inr result, tr) \<Rightarrow> (Returned result, tr)
                | (Inl ex, tr) \<Rightarrow>
                    (Returned (''Error reading PDF '' @ quote @ file_path p @ quote @ '': '' @ ex),
                     tr))))"

section \<open>Auxiliary notions for the proofs\<close>

text \<open>The calls of one loop iteration that raises nothing.\<close>

definition page_calls :: "int \<Rightarrow> event list" where
  "page_calls i = [Get_page i, Add_page i, Get_page i, Extract_text i]"

text \<open>The trace a loop result carries, raised or not.\<close>

definition trace_of :: "(exn \<times> event list) + locals \<Rightarrow> event list" where
  "trace_of r = (case r of Inl (ex, tr) \<Rightarrow> tr | Inr st \<Rightarrow> trace st)"

text \<open>The record of page \<open>n\<close> when its number converts.\<close>

definition page_record :: "int \<Rightarrow> string \<Rightarrow> string" where
  "page_record n text = ''--- Page '' @ str_int n @ '' ---'' @ newline @ text"

text \<open>The output path when both page numbers convert.\<close>

definition new_file_path :: "params \<Rightarrow> pure_path" where
  "new_file_path p =
     truediv (path_parent (Path (file_path p)))
       (Path (path_stem (Path (file_path p)) @ ''_pgs_'' @ str_int (start_page p) @ ''-'' @
              str_int (end_page p) @ path_suffix (Path (file_path p))))"

text \<open>An integer that \<open>str\<close> converts.\<close>

definition convertible :: "int \<Rightarrow> bool" where
  "convertible n = (str_of_int n = Inr (str_int n))"

text \<open>The exception that the calls made on a page raise first, if any.\<close>

definition raised_by :: "page \<Rightarrow> exn \<Rightarrow> bool" where
  "raised_by pg ex =
     (add_page pg = Some ex \<or> (add_page pg = None \<and> extract_text pg = Inl ex))"

section \<open>Example environments\<close>

text \<open>A page whose text is extracted without failure, and one whose extraction raises.\<close>

definition text_page :: "string \<Rightarrow> page" where
  "text_page t = \<lparr>extract_text = Inr t, add_page = None\<rparr>"

definition broken_page :: "exn \<Rightarrow> page" where
  "broken_page m = \<lparr>extract_text = Inl m, add_page = None\<rparr>"

text \<open>
  A filesystem in which exactly the listed paths exist, each of them the same document;
  every write succeeds.
\<close>

definition fs_env :: "string list \<Rightarrow> page list \<Rightarrow> env" where
  "fs_env paths pages =
     \<lparr>validation_error_str = (\<lambda>errors. ''validation error for PDFSplitParams''),
      path_exists = (\<lambda>p. p \<in> set paths),
      pdf_reader =
        (\<lambda>p. if p \<in> set paths then Inr (document_of pages) else Inl ''No such file or directory''),
      open_wb = (\<lambda>p. None),
      writer_write = (\<lambda>p doc. None)\<rparr>"

text \<open>
  The five-page \<open>report.pdf\<close>; the file that page range 2 to 3 would be saved to exists
  already, and so does a path with a trailing blank.
\<close>

definition report_pages :: "page list" where
  "report_pages = map text_page [''One'', ''Two'', ''Three'', ''Four'', ''Five'']"

definition report_env :: env where
  "report_env =
     fs_env [''/docs/report.pdf'', ''/docs/report_pgs_2-3.pdf'', ''/docs/report.pdf ''] report_pages"

text \<open>The same, in a directory that cannot be written to.\<close>

definition readonly_env :: env where
  "readonly_env = report_env\<lparr>open_wb := (\<lambda>p. Some ''Permission denied'')\<rparr>"

text \<open>Two-page documents in which the text of one page cannot be extracted.\<close>

definition first_broken_env :: env where
  "first_broken_env = fs_env [''a.pdf''] [broken_page ''boom'', text_page ''Two'']"

definition second_broken_env :: env where
  "second_broken_env = fs_env [''a.pdf''] [text_page ''One'', broken_page ''boom'']"

section \<open>Validation\<close>

lemma PDFSplitParams_ok:
  "strip fp \<noteq> [] \<Longrightarrow> 1 \<le> s \<Longrightarrow> s \<le> e \<Longrightarrow>
   PDFSplitParams fp s e sv = Inr \<lparr>file_path = fp, start_page = s, end_page = e, save_pdf = sv\<rparr>"
  by (simp add: PDFSplitParams_def validate_file_path_def validate_start_page_def
      validate_end_page_def file_path_must_not_be_empty_def
      end_page_must_be_greater_or_equal_to_start_def)

lemma PDFSplitParams_Inr:
  "PDFSplitParams fp s e sv = Inr p \<Longrightarrow>
   strip fp \<noteq> [] \<and> 1 \<le> s \<and> s \<le> e \<and>
   p = \<lparr>file_path = fp, start_page = s, end_page = e, save_pdf = sv\<rparr>"
  by (auto simp add: PDFSplitParams_def validate_file_path_def validate_start_page_def
      validate_end_page_def file_path_must_not_be_empty_def Let_def
      end_page_must_be_greater_or_equal_to_start_def split: if_splits)

lemma PDFSplitParams_rejects:
  "strip fp = [] \<or> s < 1 \<or> e < 1 \<or> e < s \<Longrightarrow>
   validate_file_path fp @ validate_start_page s @ validate_end_page s e \<noteq> [] \<and>
   PDFSplitParams fp s e sv =
     Inl (validate_file_path fp @ validate_start_page s @ validate_end_page s e)"
  by (auto simp add: PDFSplitParams_def validate_file_path_def validate_start_page_def
      validate_end_page_def file_path_must_not_be_empty_def Let_def
      end_page_must_be_greater_or_equal_to_start_def split: if_splits)

section \<open>Integer conversion\<close>

lemma str_nat_length: "0 < k \<Longrightarrow> (length (str_nat n) \<le> k) = (n < 10 ^ k)"
proof (induction n arbitrary: k rule: str_nat.induct)
  case (1 n)
  show ?case
  proof (cases "n < 10")
    case True
    have "(10::nat) ^ 1 \<le> 10 ^ k" using 1(2) by (intro power_increasing) simp_all
    with True have "n < 10 ^ k" by simp
    with True 1(2) show ?thesis by (subst str_nat.simps) simp
  next
    case False
    obtain j where k: "k = Suc j" using 1(2) by (cases k) auto
    have len: "length (str_nat n) = Suc (length (str_nat (n div 10)))"
      using False by (subst str_nat.simps) simp
    show ?thesis
    proof (cases "j = 0")
      case True
      have "0 < length (str_nat (n div 10))" by (subst str_nat.simps) simp
      with True False k len show ?thesis by simp
    next
      case False
      then have "0 < j" by simp
      from 1(1) [OF \<open>\<not> n < 10\<close> this]
      have "(length (str_nat (n div 10)) \<le> j) = (n div 10 < 10 ^ j)" .
      also have "\<dots> = (n < 10 ^ j * 10)" by (simp add: div_less_iff_less_mult)
      finally show ?thesis by (simp add: len k mult.commute)
    qed
  qed
qed

lemma convertible_iff: "convertible n = (\<bar>n\<bar> < 10 ^ int_max_str_digits)"
proof -
  have pos: "0 < int_max_str_digits" by (simp add: int_max_str_digits_def)
  have "convertible n = (length (str_nat (nat \<bar>n\<bar>)) \<le> int_max_str_digits)"
    by (auto simp add: convertible_def str_of_int_def)
  also have "\<dots> = (nat \<bar>n\<bar> < 10 ^ int_max_str_digits)" by (rule str_nat_length [OF pos])
  also have "\<dots> = (\<bar>n\<bar> < 10 ^ int_max_str_digits)"
  proof -
    have "(nat \<bar>n\<bar> < 10 ^ int_max_str_digits) =
          (int (nat \<bar>n\<bar>) < int (10 ^ int_max_str_digits))"
      by (simp only: of_nat_less_iff)
    then show ?thesis by simp
  qed
  finally show ?thesis .
qed

lemma convertibleD: "convertible n \<Longrightarrow> str_of_int n = Inr (str_int n)"
  by (simp add: convertible_def)

lemma str_of_int_Inr: "str_of_int n = Inr x \<Longrightarrow> x = str_int n \<and> convertible n"
  by (auto simp add: convertible_def str_of_int_def split: if_splits)

lemma str_of_int_Inl:
  "str_of_int n = Inl ex \<Longrightarrow>
   \<not> convertible n \<and> ex = int_str_limit_error"
  by (auto simp add: convertible_def str_of_int_def split: if_splits)

lemma convertible_le: "0 \<le> n \<Longrightarrow> n \<le> m \<Longrightarrow> convertible m \<Longrightarrow> convertible n"
  by (simp add: convertible_iff)

lemma maxsize_convertible: "0 \<le> n \<Longrightarrow> n \<le> int maxsize \<Longrightarrow> convertible n"
proof -
  assume n: "0 \<le> n" "n \<le> int maxsize"
  have "int maxsize < 10 ^ 19" by (simp add: maxsize_def)
  also have "(10::int) ^ 19 \<le> 10 ^ int_max_str_digits"
    by (intro power_increasing) (simp_all add: int_max_str_digits_def)
  finally have "int maxsize < 10 ^ int_max_str_digits" .
  with n(2) have "n < 10 ^ int_max_str_digits" by (rule le_less_trans)
  with n(1) show ?thesis by (simp add: convertible_iff)
qed

lemma limit_not_convertible: "\<not> convertible (10 ^ int_max_str_digits)"
  by (simp add: convertible_iff)

lemma pages_of_length: "length (pages_of d) \<le> maxsize"
  using pages_of [of d] by simp

lemma page_count_convertible: "0 \<le> n \<Longrightarrow> n \<le> int (length (pages_of d)) \<Longrightarrow> convertible n"
  using pages_of_length [of d] by (intro maxsize_convertible) simp_all

section \<open>The page loop\<close>

lemma get_page_in_range:
  "0 \<le> i \<Longrightarrow> i < int (length pages) \<Longrightarrow> get_page pages i = Inr (pages ! nat i)"
  by (simp add: get_page_def Let_def)

lemma loop_body_ok:
  assumes "0 \<le> i" "i < int (length pages)" "convertible (i + 1)"
    and "add_page (pages ! nat i) = None" "extract_text (pages ! nat i) = Inr t"
  shows "loop_body pages i st =
     Inr \<lparr>trace = trace st @ page_calls i, writer = writer st @ [pages ! nat i],
          text_parts = text_parts st @ [page_record (i + 1) t]\<rparr>"
  using assms
  by (simp add: loop_body_def get_page_in_range page_calls_def convertibleD page_record_def)

lemma page_loop_ok:
  assumes "\<forall>i\<in>set is. 0 \<le> i \<and> i < int (length pages) \<and> convertible (i + 1) \<and>
             add_page (pages ! nat i) = None \<and> extract_text (pages ! nat i) = Inr (text i)"
  shows "page_loop pages is st =
     Inr \<lparr>trace = trace st @ concat (map page_calls is),
          writer = writer st @ map (\<lambda>i. pages ! nat i) is,
          text_parts = text_parts st @ map (\<lambda>i. page_record (i + 1) (text i)) is\<rparr>"
  using assms
proof (induction "is" arbitrary: st)
  case Nil
  then show ?case by simp
next
  case (Cons i "is")
  from Cons.prems have body: "loop_body pages i st =
     Inr \<lparr>trace = trace st @ page_calls i, writer = writer st @ [pages ! nat i],
          text_parts = text_parts st @ [page_record (i + 1) (text i)]\<rparr>"
    by (intro loop_body_ok) simp_all
  from Cons.prems have rest: "\<forall>i\<in>set is. 0 \<le> i \<and> i < int (length pages) \<and>
             convertible (i + 1) \<and>
             add_page (pages ! nat i) = None \<and> extract_text (pages ! nat i) = Inr (text i)"
    by simp
  show ?case by (simp add: body Cons.IH [OF rest])
qed

lemma loop_body_cases:
  assumes "0 \<le> i" "i < int (length pages)" "convertible (i + 1)"
  shows "(\<exists>t. add_page (pages ! nat i) = None \<and> extract_text (pages ! nat i) = Inr t \<and>
            loop_body pages i st =
              Inr \<lparr>trace = trace st @ page_calls i, writer = writer st @ [pages ! nat i],
                   text_parts = text_parts st @ [page_record (i + 1) t]\<rparr>) \<or>
         (\<exists>ex tr. raised_by (pages ! nat i) ex \<and> loop_body pages i st = Inl (ex, tr) \<and>
            set tr \<subseteq> set (trace st) \<union> set (page_calls i))"
proof (cases "add_page (pages ! nat i)")
  case (Some ex)
  then show ?thesis using assms
    by (auto simp add: loop_body_def get_page_in_range page_calls_def raised_by_def)
next
  case None
  show ?thesis
  proof (cases "extract_text (pages ! nat i)")
    case (Inl ex)
    with None show ?thesis using assms
      by (auto simp add: loop_body_def get_page_in_range page_calls_def raised_by_def
          convertibleD)
  next
    case (Inr t)
    with None show ?thesis using assms
      by (simp add: loop_body_def get_page_in_range page_calls_def convertibleD
          page_record_def)
  qed
qed

text \<open>
  A loop over pages of which one raises stops at the first page that raises, with the
  exception that page raises first.
\<close>

lemma page_loop_raises:
  assumes "\<forall>i\<in>set is. 0 \<le> i \<and> i < int (length pages) \<and> convertible (i + 1)"
    and "k \<in> set is" and "raised_by (pages ! nat k) m"
  shows "\<exists>pre j post ex tr. is = pre @ j # post \<and> k \<notin> set pre \<and>
           (\<forall>i\<in>set pre. add_page (pages ! nat i) = None \<and>
              (\<exists>t. extract_text (pages ! nat i) = Inr t)) \<and>
           raised_by (pages ! nat j) ex \<and> page_loop pages is st = Inl (ex, tr) \<and>
           set tr \<subseteq> set (trace st) \<union> (\<Union>i\<in>set is. set (page_calls i))"
  using assms
proof (induction "is" arbitrary: st)
  case Nil
  then show ?case by simp
next
  case (Cons i "is")
  from Cons.prems(1) have i: "0 \<le> i" "i < int (length pages)" "convertible (i + 1)"
    by simp_all
  from loop_body_cases [OF i, of st] show ?case
  proof (elim disjE exE conjE)
    fix t
    assume ok: "add_page (pages ! nat i) = None" "extract_text (pages ! nat i) = Inr t"
      and body: "loop_body pages i st =
              Inr \<lparr>trace = trace st @ page_calls i, writer = writer st @ [pages ! nat i],
                   text_parts = text_parts st @ [page_record (i + 1) t]\<rparr>"
    let ?st = "\<lparr>trace = trace st @ page_calls i, writer = writer st @ [pages ! nat i],
                   text_parts = text_parts st @ [page_record (i + 1) t]\<rparr>"
    from ok Cons.prems(3) have "k \<noteq> i" by (auto simp add: raised_by_def)
    with Cons.prems(2) have k: "k \<in> set is" by simp
    from Cons.prems(1)
    have r: "\<forall>i\<in>set is. 0 \<le> i \<and> i < int (length pages) \<and> convertible (i + 1)" by simp
    from Cons.IH [OF r k Cons.prems(3), of ?st]
    obtain pre j post ex tr where *: "is = pre @ j # post" "k \<notin> set pre"
      "\<forall>i\<in>set pre. add_page (pages ! nat i) = None \<and>
              (\<exists>t. extract_text (pages ! nat i) = Inr t)"
      "raised_by (pages ! nat j) ex" "page_loop pages is ?st = Inl (ex, tr)"
      "set tr \<subseteq> set (trace ?st) \<union> (\<Union>i\<in>set is. set (page_calls i))"
      by blast
    have "i # is = (i # pre) @ j # post" using * by simp
    moreover have "k \<notin> set (i # pre)" using * \<open>k \<noteq> i\<close> by simp
    moreover have "\<forall>i\<in>set (i # pre). add_page (pages ! nat i) = None \<and>
              (\<exists>t. extract_text (pages ! nat i) = Inr t)"
      using *(3) ok by simp
    moreover have "page_loop pages (i # is) st = Inl (ex, tr)" using body * by simp
    moreover have "set tr \<subseteq> set (trace st) \<union> (\<Union>i\<in>set (i # is). set (page_calls i))"
      using *(6) by auto
    ultimately show ?thesis using *(4) by blast
  next
    fix ex tr
    assume "raised_by (pages ! nat i) ex" "loop_body pages i st = Inl (ex, tr)"
      "set tr \<subseteq> set (trace st) \<union> set (page_calls i)"
    moreover have "i # is = [] @ i # is" by simp
    moreover have "k \<notin> set []" by simp
    ultimately show ?thesis
      by (intro exI [of _ "[]"] exI [of _ i] exI [of _ "is"] exI [of _ ex] exI [of _ tr]) auto
  qed
qed

lemma loop_body_trace:
  "set (trace_of (loop_body pages i st)) \<subseteq> set (trace st) \<union> set (page_calls i)"
  by (auto simp add: loop_body_def trace_of_def page_calls_def Let_def
      split: option.splits sum.splits)

lemma page_loop_trace:
  "set (trace_of (page_loop pages is st)) \<subseteq> set (trace st) \<union> (\<Union>i\<in>set is. set (page_calls i))"
proof (induction "is" arbitrary: st)
  case Nil
  then show ?case by (simp add: trace_of_def)
next
  case (Cons i "is")
  show ?case
  proof (cases "loop_body pages i st")
    case (Inl a)
    with loop_body_trace [of pages i st] show ?thesis by (auto simp add: trace_of_def)
  next
    case (Inr st')
    with loop_body_trace [of pages i st] have "set (trace st') \<subseteq> set (trace st) \<union> set (page_calls i)"
      by (simp add: trace_of_def)
    with Cons.IH [of st'] Inr show ?thesis by auto
  qed
qed

section \<open>The logging line between the two try blocks\<close>

lemma valid_convertible:
  assumes "PDFSplitParams fp s e sv = Inr p" and "convertible e"
  shows "convertible s" and "convertible (start_page p)" and "convertible (end_page p)"
proof -
  from PDFSplitParams_Inr [OF assms(1)]
  have p: "p = \<lparr>file_path = fp, start_page = s, end_page = e, save_pdf = sv\<rparr>"
    and s: "1 \<le> s" "s \<le> e" by simp_all
  from s assms(2) show "convertible s" by (intro convertible_le [of s e]) simp_all
  then show "convertible (start_page p)" by (simp add: p)
  from assms(2) show "convertible (end_page p)" by (simp add: p)
qed

lemma run_logged:
  assumes "PDFSplitParams fp s e sv = Inr p" and "convertible e"
  shows "open_and_split_pdf env fp s e sv =
     (case try_split env p of
        (Inr result, tr) \<Rightarrow> (Returned result, tr)
      | (Inl ex, tr) \<Rightarrow>
          (Returned (''Error reading PDF '' @ quote @ fp @ quote @ '': '' @ ex), tr))"
proof -
  from PDFSplitParams_Inr [OF assms(1)] have fp: "file_path p = fp" by simp
  show ?thesis
    by (simp add: open_and_split_pdf_def assms(1) splitting_message_def fp
        convertibleD [OF valid_convertible(2) [OF assms]]
        convertibleD [OF valid_convertible(3) [OF assms]]
        split: prod.split sum.split)
qed

lemma run_not_logged:
  assumes "PDFSplitParams fp s e sv = Inr p" and "\<not> convertible e"
  shows "open_and_split_pdf env fp s e sv = (Raised int_str_limit_error, [])"
proof -
  from PDFSplitParams_Inr [OF assms(1)] have e: "end_page p = e" by simp
  from assms(2) obtain ex where x: "str_of_int e = Inl ex"
    by (cases "str_of_int e") (auto simp add: convertible_def str_of_int_def split: if_splits)
  show ?thesis
  proof (cases "str_of_int (start_page p)")
    case (Inl ex')
    with str_of_int_Inl [OF Inl] show ?thesis
      by (simp add: open_and_split_pdf_def assms(1) splitting_message_def)
  next
    case (Inr a)
    with x str_of_int_Inl [OF x] show ?thesis
      by (simp add: open_and_split_pdf_def assms(1) splitting_message_def e)
  qed
qed

lemma make_new_file_path_ok:
  "convertible (start_page p) \<Longrightarrow> convertible (end_page p) \<Longrightarrow>
   make_new_file_path p = Inr (new_file_path p)"
  by (simp add: make_new_file_path_def new_file_path_def convertibleD)

lemma raise_range_error_ok:
  "convertible requested \<Longrightarrow> convertible total_pages \<Longrightarrow>
   raise_range_error requested total_pages =
     ''Requested page '' @ str_int requested @ '' exceeds the document length ('' @
     str_int total_pages @ '' pages).''"
  by (simp add: raise_range_error_def convertibleD)

section \<open>The successful run\<close>

lemma map_upto_shift: "map f [s - 1..e - 1] = map (\<lambda>n. f (n - 1)) [s..e]"
proof (induction s e rule: upto.induct)
  case (1 i j)
  show ?case
  proof (cases "i \<le> j")
    case True
    then have a: "[i - 1..j - 1] = (i - 1) # [i + 1 - 1..j - 1]"
      by (simp add: upto_rec1 [of "i - 1"])
    from True have b: "[i..j] = i # [i + 1..j]" by (rule upto_rec1)
    from 1 [OF True] show ?thesis by (simp only: a b list.map)
  next
    case False
    then show ?thesis by simp
  qed
qed

lemma split_ok:
  assumes valid: "PDFSplitParams fp s e sv = Inr p"
    and ex: "path_exists env fp"
    and rd: "pdf_reader env fp = Inr doc"
    and len: "e \<le> int (length (pages_of doc))"
    and ok: "\<forall>i\<in>set [s - 1..e - 1].
               add_page (pages_of doc ! nat i) = None \<and>
               extract_text (pages_of doc ! nat i) = Inr (text i)"
  shows "try_split env p =
     (case (if sv then save_new_pdf env p
              \<lparr>trace = [Path_exists fp, Reader_open fp] @ concat (map page_calls [s - 1..e - 1]),
               writer = map (\<lambda>i. pages_of doc ! nat i) [s - 1..e - 1],
               text_parts = map (\<lambda>i. page_record (i + 1) (text i)) [s - 1..e - 1]\<rparr>
            else (None, [Path_exists fp, Reader_open fp] @ concat (map page_calls [s - 1..e - 1]))) of
        (Some ex, tr') \<Rightarrow> (Inl ex, tr')
      | (None, tr') \<Rightarrow>
          (Inr (''Content from new PDF:'' @ newline @ newline @
                join newline (map (\<lambda>i. page_record (i + 1) (text i)) [s - 1..e - 1])), tr'))"
proof -
  from PDFSplitParams_Inr [OF valid]
  have p: "p = \<lparr>file_path = fp, start_page = s, end_page = e, save_pdf = sv\<rparr>"
    and s: "1 \<le> s" by simp_all
  have conv: "convertible (i + 1)" if "i \<in> set [s - 1..e - 1]" for i
    using that s len by (intro page_count_convertible [of _ doc]) simp_all
  have all: "\<forall>i\<in>set [s - 1..e - 1]. 0 \<le> i \<and> i < int (length (pages_of doc)) \<and>
               convertible (i + 1) \<and>
               add_page (pages_of doc ! nat i) = None \<and>
               extract_text (pages_of doc ! nat i) = Inr (text i)"
  proof
    fix i assume i: "i \<in> set [s - 1..e - 1]"
    with s len have "0 \<le> i \<and> i < int (length (pages_of doc))" by simp
    with conv [OF i] ok i show "0 \<le> i \<and> i < int (length (pages_of doc)) \<and>
               convertible (i + 1) \<and>
               add_page (pages_of doc ! nat i) = None \<and>
               extract_text (pages_of doc ! nat i) = Inr (text i)"
      by simp
  qed
  have loop: "page_loop (pages_of doc) (py_range (s - 1) e)
                \<lparr>trace = [Path_exists fp, Reader_open fp], writer = [], text_parts = []\<rparr> =
     Inr \<lparr>trace = [Path_exists fp, Reader_open fp] @ concat (map page_calls [s - 1..e - 1]),
          writer = map (\<lambda>i. pages_of doc ! nat i) [s - 1..e - 1],
          text_parts = map (\<lambda>i. page_record (i + 1) (text i)) [s - 1..e - 1]\<rparr>"
    using page_loop_ok [OF all, of "\<lparr>trace = [Path_exists fp, Reader_open fp], writer = [], text_parts = []\<rparr>"]
    by (simp add: py_range_def)
  show ?thesis
    unfolding p using len ex rd
    by (simp add: try_split_def with_reader_def loop split: prod.split option.split)
qed

text \<open>
  A run in which the parameters are valid, the document opens with enough pages and
  every page of the range is copied and read: what is returned, and the calls made.
\<close>

lemma run_ok:
  assumes valid: "PDFSplitParams fp s e sv = Inr p"
    and ex: "path_exists env fp"
    and rd: "pdf_reader env fp = Inr doc"
    and len: "e \<le> int (length (pages_of doc))"
    and ok: "\<forall>n\<in>set [s..e].
               add_page (pages_of doc ! nat (n - 1)) = None \<and>
               extract_text (pages_of doc ! nat (n - 1)) = Inr (text n)"
  shows "open_and_split_pdf env fp s e sv =
     (let tr = [Path_exists fp, Reader_open fp] @ concat (map (\<lambda>n. page_calls (n - 1)) [s..e]);
          selected = map (\<lambda>n. pages_of doc ! nat (n - 1)) [s..e];
          f = str_path (new_file_path p);
          content = ''Content from new PDF:'' @ newline @ newline @
                    join newline (map (\<lambda>n. page_record n (text n)) [s..e]);
          failed = (\<lambda>ex. ''Error reading PDF '' @ quote @ fp @ quote @ '': '' @ ex)
      in if sv then
           (case open_wb env f of
              Some ex \<Rightarrow> (Returned (failed ex), tr @ [Open_wb f])
            | None \<Rightarrow>
                (case writer_write env f selected of
                   Some ex \<Rightarrow> (Returned (failed ex), tr @ [Open_wb f, Writer_write f selected])
                 | None \<Rightarrow> (Returned content, tr @ [Open_wb f, Writer_write f selected])))
         else (Returned content, tr))"
proof -
  from PDFSplitParams_Inr [OF valid]
  have p: "p = \<lparr>file_path = fp, start_page = s, end_page = e, save_pdf = sv\<rparr>"
    and s: "1 \<le> s" "s \<le> e" by simp_all
  have ce: "convertible e" using s len by (intro page_count_convertible [of _ doc]) simp_all
  note cp = valid_convertible(2,3) [OF valid ce]
  have ok': "\<forall>i\<in>set [s - 1..e - 1].
               add_page (pages_of doc ! nat i) = None \<and>
               extract_text (pages_of doc ! nat i) = Inr (text (i + 1))"
  proof
    fix i assume "i \<in> set [s - 1..e - 1]"
    then have "i + 1 \<in> set [s..e]" by simp
    with ok show "add_page (pages_of doc ! nat i) = None \<and>
        extract_text (pages_of doc ! nat i) = Inr (text (i + 1))"
      by fastforce
  qed
  have m1: "concat (map page_calls [s - 1..e - 1]) = concat (map (\<lambda>n. page_calls (n - 1)) [s..e])"
    by (simp only: map_upto_shift)
  have m2: "map (\<lambda>i. pages_of doc ! nat i) [s - 1..e - 1] =
            map (\<lambda>n. pages_of doc ! nat (n - 1)) [s..e]"
    by (rule map_upto_shift)
  have m3: "map (\<lambda>i. page_record (i + 1) (text (i + 1))) [s - 1..e - 1] =
            map (\<lambda>n. page_record n (text n)) [s..e]"
    by (simp add: map_upto_shift)
  show ?thesis
    unfolding run_logged [OF valid ce] split_ok [OF valid ex rd len ok'] m1 m2 m3
    by (simp add: save_new_pdf_def make_new_file_path_ok [OF cp] Let_def split: option.split)
qed

section \<open>The output path\<close>

lemma split_sep_nonempty: "split_sep c s \<noteq> []"
  by (induction s) (auto split: list.splits)

lemma split_sep_no_sep: "w \<in> set (split_sep c s) \<Longrightarrow> c \<notin> set w"
proof (induction s arbitrary: w)
  case Nil
  then show ?case by simp
next
  case (Cons a s)
  show ?case
  proof (cases "a = c")
    case True
    with Cons show ?thesis by auto
  next
    case False
    obtain v vs where sp: "split_sep c s = v # vs"
      using split_sep_nonempty [of c s] by (cases "split_sep c s") auto
    with Cons.prems False have "w = a # v \<or> w \<in> set vs" by simp
    moreover have "c \<notin> set v" using Cons.IH [of v] sp by simp
    moreover have "w \<in> set vs \<Longrightarrow> c \<notin> set w" using Cons.IH [of w] sp by simp
    ultimately show ?thesis using False by auto
  qed
qed

lemma split_sep_id: "c \<notin> set s \<Longrightarrow> split_sep c s = [s]"
  by (induction s) auto

lemma digit_char_digit: "d < 10 \<Longrightarrow> digit_char d \<in> set ''0123456789''"
  unfolding digit_char_def by (rule nth_mem) simp

lemma str_nat_digits: "set (str_nat n) \<subseteq> set ''0123456789''"
proof (induction n rule: str_nat.induct)
  case (1 n)
  show ?case
  proof (cases "n < 10")
    case True
    then show ?thesis using digit_char_digit [of n] by (subst str_nat.simps) simp
  next
    case False
    have "n mod 10 < 10" by simp
    from digit_char_digit [OF this] 1 [OF False] False show ?thesis
      by (subst str_nat.simps) simp
  qed
qed

lemma str_int_no_slash: "CHR ''/'' \<notin> set (str_int i)"
proof -
  have "CHR ''/'' \<notin> set (str_nat n)" for n
    using str_nat_digits [of n] by auto
  then show ?thesis by (simp add: str_int_def)
qed

lemma path_name_no_slash: "CHR ''/'' \<notin> set (path_name (Path s))"
proof (cases "path_parts (Path s) = []")
  case True
  then show ?thesis by (simp add: path_name_def)
next
  case False
  then have "last (path_parts (Path s)) \<in> set (path_parts (Path s))" by simp
  then have "last (path_parts (Path s)) \<in> set (split_sep (CHR ''/'') (snd (splitroot s)))"
    by (simp add: Path_def split: prod.splits)
  from split_sep_no_sep [OF this] False show ?thesis by (simp add: path_name_def)
qed

lemma path_stem_no_slash: "CHR ''/'' \<notin> set (path_stem (Path s))"
  using path_name_no_slash [of s] by (auto simp add: path_stem_def Let_def dest: in_set_takeD)

lemma path_suffix_no_slash: "CHR ''/'' \<notin> set (path_suffix (Path s))"
  using path_name_no_slash [of s] by (auto simp add: path_suffix_def Let_def dest: in_set_dropD)

lemma Path_single:
  assumes "x \<noteq> []" "x \<noteq> ''.''" "CHR ''/'' \<notin> set x"
  shows "Path x = \<lparr>path_root = [], path_parts = [x]\<rparr>"
proof -
  from assms(1,3) have "hd x \<noteq> CHR ''/''" by (cases x) auto
  then have "splitroot x = ([], x)" by (simp add: splitroot_def)
  with assms show ?thesis by (simp add: Path_def split_sep_id)
qed

lemma new_file_path_eq:
  "new_file_path \<lparr>file_path = fp, start_page = s, end_page = e, save_pdf = sv\<rparr> =
     \<lparr>path_root = path_root (path_parent (Path fp)),
      path_parts = path_parts (path_parent (Path fp)) @
        [path_stem (Path fp) @ ''_pgs_'' @ str_int s @ ''-'' @ str_int e @ path_suffix (Path fp)]\<rparr>"
proof -
  let ?x = "path_stem (Path fp) @ ''_pgs_'' @ str_int s @ ''-'' @ str_int e @ path_suffix (Path fp)"
  have 1: "?x \<noteq> []" by simp
  have "length ?x \<ge> 5" by simp
  then have 2: "?x \<noteq> ''.''" by auto
  have 3: "CHR ''/'' \<notin> set ?x"
    using path_stem_no_slash [of fp] path_suffix_no_slash [of fp]
      str_int_no_slash [of s] str_int_no_slash [of e] by simp
  show ?thesis
    by (simp only: new_file_path_def Path_single [OF 1 2 3] params.simps)
       (simp add: truediv_def)
qed

section \<open>Runs that raise in the page loop\<close>

lemma raised_or_read:
  "(\<exists>ex. raised_by pg ex) \<or> (add_page pg = None \<and> (\<exists>t. extract_text pg = Inr t))"
  by (cases "add_page pg"; cases "extract_text pg") (simp_all add: raised_by_def)

lemma upto_before:
  assumes "[a..b] = pre @ j # post" and "a \<le> i" and "i < j"
  shows "i \<in> set pre"
proof -
  have "sorted_wrt (<) (pre @ j # post)" using sorted_wrt_upto [of a b] by (simp only: assms(1))
  then have after: "\<forall>x\<in>set post. j < x" by (simp add: sorted_wrt_append)
  have "j \<in> set [a..b]" by (simp only: assms(1)) simp
  then have "j \<le> b" by simp
  with assms(2,3) have "i \<in> set [a..b]" by simp
  then have "i \<in> set pre \<or> i = j \<or> i \<in> set post" by (simp only: assms(1)) auto
  with after assms(3) show ?thesis by auto
qed

text \<open>
  A run in which a page of the range raises: the error returned carries the exception of
  the first page that raises, and only calls on pages are made after the reader is
  opened.
\<close>

lemma run_raises:
  assumes valid: "PDFSplitParams fp s e sv = Inr p"
    and ex: "path_exists env fp"
    and rd: "pdf_reader env fp = Inr doc"
    and len: "e \<le> int (length (pages_of doc))"
    and k: "k \<in> set [s..e]"
    and bad: "raised_by (pages_of doc ! nat (k - 1)) m"
  shows "\<exists>j ex tr. j \<in> set [s..k] \<and>
           (\<forall>n\<in>set [s..j - 1].
              add_page (pages_of doc ! nat (n - 1)) = None \<and>
              (\<exists>t. extract_text (pages_of doc ! nat (n - 1)) = Inr t)) \<and>
           raised_by (pages_of doc ! nat (j - 1)) ex \<and>
           open_and_split_pdf env fp s e sv =
             (Returned (''Error reading PDF '' @ quote @ fp @ quote @ '': '' @ ex), tr) \<and>
           set tr \<subseteq> {Path_exists fp, Reader_open fp} \<union> (\<Union>n\<in>set [s..e]. set (page_calls (n - 1)))"
proof -
  from PDFSplitParams_Inr [OF valid]
  have p: "p = \<lparr>file_path = fp, start_page = s, end_page = e, save_pdf = sv\<rparr>"
    and s: "1 \<le> s" "s \<le> e" by simp_all
  have ce: "convertible e" using s len by (intro page_count_convertible [of _ doc]) simp_all
  let ?pages = "pages_of doc"
  let ?is = "[s - 1..e - 1]"
  let ?st = "\<lparr>trace = [Path_exists fp, Reader_open fp], writer = [], text_parts = []\<rparr>"
  have rng: "\<forall>i\<in>set ?is. 0 \<le> i \<and> i < int (length ?pages) \<and> convertible (i + 1)"
  proof
    fix i assume i: "i \<in> set ?is"
    with s len have b: "0 \<le> i \<and> i < int (length ?pages)" by simp
    from i s len have "convertible (i + 1)"
      by (intro page_count_convertible [of _ doc]) simp_all
    with b show "0 \<le> i \<and> i < int (length ?pages) \<and> convertible (i + 1)" by simp
  qed
  have k': "k - 1 \<in> set ?is" using k by simp
  from page_loop_raises [OF rng k' bad, of ?st]
  obtain pre j post ex tr where dec: "?is = pre @ j # post" and npre: "k - 1 \<notin> set pre"
    and okpre: "\<forall>i\<in>set pre. add_page (?pages ! nat i) = None \<and>
                  (\<exists>t. extract_text (?pages ! nat i) = Inr t)"
    and rj: "raised_by (?pages ! nat j) ex"
    and loop: "page_loop ?pages ?is ?st = Inl (ex, tr)"
    and tr: "set tr \<subseteq> set (trace ?st) \<union> (\<Union>i\<in>set ?is. set (page_calls i))"
    by blast
  have "sorted (pre @ j # post)" using sorted_upto [of "s - 1" "e - 1"] by (simp only: dec)
  then have after: "\<forall>x\<in>set post. j \<le> x" by (simp add: sorted_append)
  from k' dec npre have "k - 1 = j \<or> k - 1 \<in> set post" by auto
  with after have jk: "j \<le> k - 1" by auto
  have "j \<in> set ?is" by (simp only: dec) simp
  then have js: "s - 1 \<le> j" by simp
  from js jk have j1: "j + 1 \<in> set [s..k]" by simp
  have j2: "raised_by (?pages ! nat (j + 1 - 1)) ex" using rj by simp
  have j3: "\<forall>n\<in>set [s..j + 1 - 1].
              add_page (?pages ! nat (n - 1)) = None \<and>
              (\<exists>t. extract_text (?pages ! nat (n - 1)) = Inr t)"
  proof
    fix n assume "n \<in> set [s..j + 1 - 1]"
    then have "s - 1 \<le> n - 1" "n - 1 < j" by simp_all
    from upto_before [OF dec this] okpre
    show "add_page (?pages ! nat (n - 1)) = None \<and>
              (\<exists>t. extract_text (?pages ! nat (n - 1)) = Inr t)"
      by blast
  qed
  have res: "open_and_split_pdf env fp s e sv =
      (Returned (''Error reading PDF '' @ quote @ fp @ quote @ '': '' @ ex), tr)"
    unfolding run_logged [OF valid ce] using ex rd len loop
    by (simp add: try_split_def with_reader_def p py_range_def)
  have "(\<Union>i\<in>set ?is. set (page_calls i)) = (\<Union>n\<in>set [s..e]. set (page_calls (n - 1)))"
  proof -
    have "(\<Union>i\<in>set ?is. set (page_calls i)) = \<Union> (set (map (\<lambda>i. set (page_calls i)) ?is))"
      by simp
    also have "map (\<lambda>i. set (page_calls i)) ?is = map (\<lambda>n. set (page_calls (n - 1))) [s..e]"
      by (rule map_upto_shift)
    finally show ?thesis by simp
  qed
  with tr have tr': "set tr \<subseteq> {Path_exists fp, Reader_open fp} \<union>
      (\<Union>n\<in>set [s..e]. set (page_calls (n - 1)))"
    by simp
  from j1 j3 j2 res tr' show ?thesis
    by (intro exI [of _ "j + 1"] exI [of _ ex] exI [of _ tr] conjI)
qed

section \<open>The trace of a run\<close>



lemma make_new_file_path_Inr: "make_new_file_path p = Inr path \<Longrightarrow> path = new_file_path p"
  by (auto simp add: make_new_file_path_def new_file_path_def
      split: sum.splits dest!: str_of_int_Inr)

lemma save_new_pdf_trace:
  "set (snd (save_new_pdf env p st)) \<subseteq>
     set (trace st) \<union> {Open_wb (str_path (new_file_path p))} \<union>
     range (Writer_write (str_path (new_file_path p)))"
proof (cases "make_new_file_path p")
  case (Inl ex)
  then show ?thesis by (auto simp add: save_new_pdf_def)
next
  case (Inr path)
  with make_new_file_path_Inr [OF Inr] show ?thesis
    by (auto simp add: save_new_pdf_def Let_def split: option.split)
qed


text \<open>The events a run can contain, for the parameters \<open>p\<close>.\<close>

lemma with_reader_trace:
  "set (snd (with_reader env p pages tr)) \<subseteq>
     set tr \<union> (\<Union>i\<in>set [start_page p - 1..end_page p - 1]. set (page_calls i)) \<union>
     {Open_wb (str_path (new_file_path p))} \<union>
     range (Writer_write (str_path (new_file_path p)))"
  (is "_ \<subseteq> ?allowed")
proof (cases "end_page p > int (length pages)")
  case True
  then show ?thesis by (auto simp add: with_reader_def)
next
  case False
  let ?st = "\<lparr>trace = tr, writer = [], text_parts = []\<rparr>"
  let ?r = "page_loop pages [start_page p - 1..end_page p - 1] ?st"
  have sub: "set (trace_of ?r) \<subseteq>
      set tr \<union> (\<Union>i\<in>set [start_page p - 1..end_page p - 1]. set (page_calls i))"
    using page_loop_trace [of pages "[start_page p - 1..end_page p - 1]" ?st] by simp
  show ?thesis
  proof (cases ?r)
    case (Inl a)
    obtain ex tr' where a: "a = (ex, tr')" by (cases a)
    from sub Inl a have "set tr' \<subseteq> ?allowed" by (auto simp add: trace_of_def)
    with False Inl a show ?thesis by (simp add: with_reader_def py_range_def)
  next
    case (Inr st)
    from sub Inr have st: "set (trace st) \<subseteq> ?allowed" by (auto simp add: trace_of_def)
    have "set (snd (if save_pdf p then save_new_pdf env p st else (None, trace st))) \<subseteq> ?allowed"
      using st save_new_pdf_trace [of env p st] by auto
    moreover have "snd (with_reader env p pages tr) =
        snd (if save_pdf p then save_new_pdf env p st else (None, trace st))"
      using False Inr
      by (simp add: with_reader_def py_range_def split: prod.split option.split)
    ultimately show ?thesis by simp
  qed
qed


lemma snd_tool:
  "PDFSplitParams fp s e sv = Inr p \<Longrightarrow> convertible e \<Longrightarrow>
   snd (open_and_split_pdf env fp s e sv) = snd (try_split env p)"
  by (simp add: run_logged split: prod.split sum.split)

lemma returned_convertible:
  "PDFSplitParams fp s e sv = Inr p \<Longrightarrow> fst (open_and_split_pdf env fp s e sv) = Returned r \<Longrightarrow>
   convertible e"
  using run_not_logged [of fp s e sv p env] by (cases "convertible e") simp_all

lemma run_trace:
  assumes "PDFSplitParams fp s e sv = Inr p"
  shows "set (snd (open_and_split_pdf env fp s e sv)) \<subseteq>
     {Path_exists fp, Reader_open fp} \<union> (\<Union>i\<in>set [s - 1..e - 1]. set (page_calls i)) \<union>
     {Open_wb (str_path (new_file_path p))} \<union>
     range (Writer_write (str_path (new_file_path p)))"
proof (cases "convertible e")
  case False
  then show ?thesis by (simp add: run_not_logged [OF assms])
next
  case ce: True
  from PDFSplitParams_Inr [OF assms]
  have p: "file_path p = fp" "start_page p = s" "end_page p = e" by simp_all
  show ?thesis
  proof (cases "path_exists env fp")
    case False
    then show ?thesis by (simp add: snd_tool [OF assms ce] try_split_def p)
  next
    case True
    show ?thesis
    proof (cases "pdf_reader env fp")
      case (Inl m)
      with True show ?thesis by (simp add: snd_tool [OF assms ce] try_split_def p)
    next
      case (Inr doc)
      have "snd (try_split env p) =
          snd (with_reader env p (pages_of doc) [Path_exists fp, Reader_open fp])"
        using True Inr by (simp add: try_split_def p)
      with with_reader_trace [of env p "pages_of doc" "[Path_exists fp, Reader_open fp]"]
      show ?thesis by (simp add: snd_tool [OF assms ce] p)
    qed
  qed
qed


section \<open>The outcome of a run\<close>

lemma page_calls_no_write: "Open_wb f \<notin> set (page_calls i)" "Writer_write f d \<notin> set (page_calls i)"
  by (simp_all add: page_calls_def)

text \<open>
  How a call ends: an exception leaves the tool with no call made, or an error string is
  returned, or nothing failed and the content is returned.
\<close>

lemma run_cases:
  "(\<exists>ex. open_and_split_pdf env fp s e sv = (Raised ex, [])) \<or>
   (\<exists>r. fst (open_and_split_pdf env fp s e sv) = Returned r \<and> prefix ''Error'' r) \<or>
   (\<exists>p doc text.
      PDFSplitParams fp s e sv = Inr p \<and>
      path_exists env fp \<and>
      pdf_reader env fp = Inr doc \<and>
      e \<le> int (length (pages_of doc)) \<and>
      (\<forall>n\<in>set [s..e].
         add_page (pages_of doc ! nat (n - 1)) = None \<and>
         extract_text (pages_of doc ! nat (n - 1)) = Inr (text n)) \<and>
      (sv \<longrightarrow>
         open_wb env (str_path (new_file_path p)) = None \<and>
         writer_write env (str_path (new_file_path p))
           (map (\<lambda>n. pages_of doc ! nat (n - 1)) [s..e]) = None) \<and>
      fst (open_and_split_pdf env fp s e sv) =
        Returned (''Content from new PDF:'' @ newline @ newline @
                  join newline (map (\<lambda>n. page_record n (text n)) [s..e])))"
  (is "?raised \<or> ?err \<or> ?fine")
proof (cases "PDFSplitParams fp s e sv")
  case (Inl errors)
  then have ?err by (simp add: open_and_split_pdf_def)
  then show ?thesis by (intro disjI2 disjI1)
next
  case (Inr p)
  note valid = this
  from PDFSplitParams_Inr [OF Inr]
  have p: "p = \<lparr>file_path = fp, start_page = s, end_page = e, save_pdf = sv\<rparr>" by simp
  show ?thesis
  proof (cases "convertible e")
    case False
    from run_not_logged [OF valid False, of env] have ?raised by (rule exI)
    then show ?thesis ..
  next
    case True
    note logged = run_logged [OF valid True]
  have "?err \<or> ?fine"
  proof (cases "path_exists env fp")
    case False
    then have ?err by (simp add: logged try_split_def p)
    then show ?thesis ..
  next
    case True
    note ex = this
    show ?thesis
    proof (cases "pdf_reader env fp")
      case (Inl m)
      with ex have ?err by (simp add: logged try_split_def p)
      then show ?thesis ..
    next
      case (Inr doc)
      note rd = this
      let ?pages = "pages_of doc"
      show ?thesis
      proof (cases "e \<le> int (length ?pages)")
        case False
        with ex rd have ?err
          by (simp add: logged try_split_def with_reader_def p)
        then show ?thesis ..
      next
        case True
        note len = this
        show ?thesis
        proof (cases "\<forall>n\<in>set [s..e]. add_page (?pages ! nat (n - 1)) = None \<and>
                        (\<exists>t. extract_text (?pages ! nat (n - 1)) = Inr t)")
          case False
          then obtain k where k: "k \<in> set [s..e]"
            and nk: "\<not> (add_page (?pages ! nat (k - 1)) = None \<and>
                        (\<exists>t. extract_text (?pages ! nat (k - 1)) = Inr t))"
            by blast
          from nk raised_or_read [of "?pages ! nat (k - 1)"]
          obtain m where bad: "raised_by (?pages ! nat (k - 1)) m" by blast
          from run_raises [OF valid ex rd len k bad]
          obtain x tr where "open_and_split_pdf env fp s e sv =
             (Returned (''Error reading PDF '' @ quote @ fp @ quote @ '': '' @ x), tr)"
            by blast
          then have ?err by simp
          then show ?thesis ..
        next
          case True
          then have "\<forall>n\<in>set [s..e]. \<exists>t. add_page (?pages ! nat (n - 1)) = None \<and>
                        extract_text (?pages ! nat (n - 1)) = Inr t"
            by simp
          from bchoice [OF this]
          obtain tx where ok: "\<forall>n\<in>set [s..e]. add_page (?pages ! nat (n - 1)) = None \<and>
                        extract_text (?pages ! nat (n - 1)) = Inr (tx n)"
            by blast
          note run = run_ok [OF valid ex rd len ok]
          let ?f = "str_path (new_file_path p)"
          let ?doc = "map (\<lambda>n. ?pages ! nat (n - 1)) [s..e]"
          let ?content = "Returned (''Content from new PDF:'' @ newline @ newline @
              join newline (map (\<lambda>n. page_record n (tx n)) [s..e]))"
          have "?err \<or> ((sv \<longrightarrow> open_wb env ?f = None \<and> writer_write env ?f ?doc = None) \<and>
                  fst (open_and_split_pdf env fp s e sv) = ?content)"
          proof (cases sv)
            case False
            then show ?thesis unfolding run by (simp add: Let_def)
          next
            case True
            show ?thesis
            proof (cases "open_wb env ?f")
              case (Some m)
              with True have ?err unfolding run by (simp add: Let_def)
              then show ?thesis ..
            next
              case None
              note o = this
              show ?thesis
              proof (cases "writer_write env ?f ?doc")
                case (Some m)
                with True o have ?err unfolding run by (simp add: Let_def)
                then show ?thesis ..
              next
                case None
                with True o have "fst (open_and_split_pdf env fp s e sv) = ?content"
                  unfolding run by (simp add: Let_def)
                with o None show ?thesis by simp
              qed
            qed
          qed
          then show ?thesis
          proof
            assume ?err
            then show ?thesis ..
          next
            assume a: "(sv \<longrightarrow> open_wb env ?f = None \<and> writer_write env ?f ?doc = None) \<and>
                  fst (open_and_split_pdf env fp s e sv) = ?content"
            have ?fine
              using valid ex rd len ok a
              by (intro exI [of _ p] exI [of _ doc] exI [of _ tx] conjI) simp_all
            then show ?thesis ..
          qed
        qed
      qed
    qed
  qed
  then show ?thesis ..
  qed
qed

lemma error_not_content: "prefix ''Error'' r \<Longrightarrow> \<not> prefix ''Content'' r"
  by (cases r) auto

section \<open>Facts about the example environments\<close>

lemma report_valid:
  "1 \<le> s \<Longrightarrow> s \<le> e \<Longrightarrow>
   PDFSplitParams ''/docs/report.pdf'' s e sv =
     Inr \<lparr>file_path = ''/docs/report.pdf'', start_page = s, end_page = e, save_pdf = sv\<rparr>"
  by (rule PDFSplitParams_ok) (simp_all add: strip_def isspace_def)

lemma pages_of_document_of: "length ps \<le> 5 \<Longrightarrow> pages_of (document_of ps) = ps"
  by (rule document_of_inverse) (simp add: maxsize_def)

lemma report_doc: "pages_of (document_of report_pages) = report_pages"
  by (rule pages_of_document_of) (simp add: report_pages_def)

lemma report_reader:
  "pdf_reader report_env ''/docs/report.pdf'' = Inr (document_of report_pages)"
  "pdf_reader report_env ''/docs/report.pdf '' = Inr (document_of report_pages)"
  "pdf_reader readonly_env ''/docs/report.pdf'' = Inr (document_of report_pages)"
  by (simp_all add: readonly_env_def report_env_def fs_env_def)

lemma report_pages_2_3:
  "\<forall>n\<in>set [2..3].
     add_page (pages_of (document_of report_pages) ! nat (n - 1)) = None \<and>
     extract_text (pages_of (document_of report_pages) ! nat (n - 1)) =
       Inr ((\<lambda>n. if n = 2 then ''Two'' else ''Three'') n)"
  unfolding report_doc by (simp add: report_pages_def text_page_def)

lemma str_int_2_3: "str_int 2 = ''2''" "str_int 3 = ''3''"
  by (simp_all add: str_int_def str_nat.simps digit_char_def)

lemma report_out_path:
  "str_path
     \<lparr>path_root = path_root (path_parent (Path ''/docs/report.pdf'')),
      path_parts = path_parts (path_parent (Path ''/docs/report.pdf'')) @
        [path_stem (Path ''/docs/report.pdf'') @ ''_pgs_'' @ str_int 2 @ ''-'' @ str_int 3 @
         path_suffix (Path ''/docs/report.pdf'')]\<rparr> = ''/docs/report_pgs_2-3.pdf''"
  by (simp add: str_path_def path_parent_def Path_def splitroot_def path_stem_def
      path_suffix_def path_name_def rfind_def Let_def str_int_2_3)

lemma a_pdf_valid:
  "1 \<le> s \<Longrightarrow> s \<le> e \<Longrightarrow>
   PDFSplitParams ''a.pdf'' s e sv =
     Inr \<lparr>file_path = ''a.pdf'', start_page = s, end_page = e, save_pdf = sv\<rparr>"
  by (rule PDFSplitParams_ok) (simp_all add: strip_def isspace_def)


lemma broken_docs:
  "pages_of (document_of [broken_page ''boom'', text_page ''Two'']) =
     [broken_page ''boom'', text_page ''Two'']"
  "pages_of (document_of [text_page ''One'', broken_page ''boom'']) =
     [text_page ''One'', broken_page ''boom'']"
  by (simp_all add: pages_of_document_of)

lemma broken_reader:
  "pdf_reader first_broken_env ''a.pdf'' =
     Inr (document_of [broken_page ''boom'', text_page ''Two''])"
  "pdf_reader second_broken_env ''a.pdf'' =
     Inr (document_of [text_page ''One'', broken_page ''boom''])"
  by (simp_all add: first_broken_env_def second_broken_env_def fs_env_def)

lemma broken_exists:
  "path_exists first_broken_env ''a.pdf''" "path_exists second_broken_env ''a.pdf''"
  by (simp_all add: first_broken_env_def second_broken_env_def fs_env_def)

lemma first_broken_run:
  "fst (open_and_split_pdf first_broken_env ''a.pdf'' 1 2 False) =
     Returned (''Error reading PDF '' @ quote @ ''a.pdf'' @ quote @ '': boom'')"
proof -
  let ?doc = "document_of [broken_page ''boom'', text_page ''Two'']"
  have v: "PDFSplitParams ''a.pdf'' 1 2 False =
     Inr \<lparr>file_path = ''a.pdf'', start_page = 1, end_page = 2, save_pdf = False\<rparr>"
    by (rule a_pdf_valid) simp_all
  have l: "2 \<le> int (length (pages_of ?doc))" by (simp add: broken_docs)
  have k: "(1::int) \<in> set [1..2]" by simp
  have b: "raised_by (pages_of ?doc ! nat (1 - 1)) ''boom''"
    unfolding broken_docs by (simp add: raised_by_def broken_page_def)
  from run_raises [OF v broken_exists(1) broken_reader(1) l k b]
  obtain j ex tr where j: "j \<in> set [1..1]" and rb: "raised_by (pages_of ?doc ! nat (j - 1)) ex"
    and res: "open_and_split_pdf first_broken_env ''a.pdf'' 1 2 False =
             (Returned (''Error reading PDF '' @ quote @ ''a.pdf'' @ quote @ '': '' @ ex), tr)"
    by blast
  from j have "j = 1" by simp
  with rb have "ex = ''boom''" unfolding broken_docs by (simp add: raised_by_def broken_page_def)
  with res show ?thesis by simp
qed

lemma second_broken_run:
  "fst (open_and_split_pdf second_broken_env ''a.pdf'' 1 2 False) =
     Returned (''Error reading PDF '' @ quote @ ''a.pdf'' @ quote @ '': boom'')"
proof -
  let ?doc = "document_of [text_page ''One'', broken_page ''boom'']"
  have v: "PDFSplitParams ''a.pdf'' 1 2 False =
     Inr \<lparr>file_path = ''a.pdf'', start_page = 1, end_page = 2, save_pdf = False\<rparr>"
    by (rule a_pdf_valid) simp_all
  have l: "2 \<le> int (length (pages_of ?doc))" by (simp add: broken_docs)
  have k: "(2::int) \<in> set [1..2]" by simp
  have b: "raised_by (pages_of ?doc ! nat (2 - 1)) ''boom''"
    unfolding broken_docs by (simp add: raised_by_def broken_page_def)
  from run_raises [OF v broken_exists(2) broken_reader(2) l k b]
  obtain j ex tr where j: "j \<in> set [1..2]" and rb: "raised_by (pages_of ?doc ! nat (j - 1)) ex"
    and res: "open_and_split_pdf second_broken_env ''a.pdf'' 1 2 False =
             (Returned (''Error reading PDF '' @ quote @ ''a.pdf'' @ quote @ '': '' @ ex), tr)"
    by blast
  from j have "j = 1 \<or> j = 2" by auto
  then have "ex = ''boom''"
  proof
    assume "j = 1"
    with rb show ?thesis unfolding broken_docs by (simp add: raised_by_def text_page_def)
  next
    assume "j = 2"
    with rb show ?thesis unfolding broken_docs by (simp add: raised_by_def broken_page_def)
  qed
  with res show ?thesis by simp
qed

section \<open>Error strings of a logged run\<close>

text \<open>
  For page numbers that the logging line can format, a missing file and a range beyond
  the document give their error strings.
\<close>

lemma not_found_error:
  assumes "PDFSplitParams fp s e sv = Inr p" and "convertible e" and "\<not> path_exists env fp"
  shows "open_and_split_pdf env fp s e sv =
           (Returned (''Error: File '' @ quote @ fp @ quote @ '' does not exist''),
            [Path_exists fp])"
proof -
  from PDFSplitParams_Inr [OF assms(1)]
  have p: "p = \<lparr>file_path = fp, start_page = s, end_page = e, save_pdf = sv\<rparr>" by simp
  show ?thesis using assms(3) by (simp add: run_logged [OF assms(1,2)] try_split_def p)
qed

lemma range_check_error:
  assumes "PDFSplitParams fp s e sv = Inr p" and "convertible e"
    and "path_exists env fp"
    and "pdf_reader env fp = Inr doc"
    and "int (length (pages_of doc)) < e"
  shows "open_and_split_pdf env fp s e sv =
           (Returned (''Error reading PDF '' @ quote @ fp @ quote @ '': Requested page '' @
                      str_int e @ '' exceeds the document length ('' @
                      str_int (int (length (pages_of doc))) @ '' pages).''),
            [Path_exists fp, Reader_open fp])"
proof -
  from PDFSplitParams_Inr [OF assms(1)]
  have p: "p = \<lparr>file_path = fp, start_page = s, end_page = e, save_pdf = sv\<rparr>" by simp
  have "convertible (int (length (pages_of doc)))"
    by (rule page_count_convertible [of _ doc]) simp_all
  from raise_range_error_ok [OF assms(2) this] assms(3-5) show ?thesis
    by (simp add: run_logged [OF assms(1,2)] try_split_def with_reader_def p)
qed

lemma limit_valid:
  "strip fp \<noteq> [] \<Longrightarrow>
   PDFSplitParams fp 1 (10 ^ int_max_str_digits) sv =
     Inr \<lparr>file_path = fp, start_page = 1, end_page = 10 ^ int_max_str_digits, save_pdf = sv\<rparr>"
  by (rule PDFSplitParams_ok) simp_all

section \<open>The claims\<close>

text \<open>
  C1, as amended. For every request with validated parameters, an existing document that
  opens with at least \<open>end_page\<close> pages, whose pages \<open>start_page\<close> to \<open>end_page\<close> are copied
  and yield their text without failure, and, when \<open>save_pdf\<close> is set, whose output file is
  written without failure: the tool returns the header followed by the records of the
  pages \<open>start_page\<close> to \<open>end_page\<close> in ascending order, joined by one newline, and there
  are \<open>end_page - start_page + 1\<close> records.
\<close>

theorem content_of_page_range:
  assumes "PDFSplitParams fp s e sv = Inr p"
    and "path_exists env fp"
    and "pdf_reader env fp = Inr doc"
    and "e \<le> int (length (pages_of doc))"
    and "\<forall>n\<in>set [s..e].
           add_page (pages_of doc ! nat (n - 1)) = None \<and>
           extract_text (pages_of doc ! nat (n - 1)) = Inr (text n)"
    and "sv \<Longrightarrow> open_wb env (str_path (new_file_path p)) = None"
    and "sv \<Longrightarrow> writer_write env (str_path (new_file_path p))
                  (map (\<lambda>n. pages_of doc ! nat (n - 1)) [s..e]) = None"
  shows "fst (open_and_split_pdf env fp s e sv) =
           Returned
             (''Content from new PDF:'' @ newline @ newline @
              join newline
                (map (\<lambda>n. ''--- Page '' @ str_int n @ '' ---'' @ newline @ text n) [s..e])) \<and>
         length (map (\<lambda>n. ''--- Page '' @ str_int n @ '' ---'' @ newline @ text n) [s..e]) =
           nat (e - s + 1)"
proof (cases sv)
  case True
  with assms(6,7) show ?thesis
    unfolding run_ok [OF assms(1-5)] by (simp add: Let_def page_record_def)
next
  case False
  then show ?thesis
    unfolding run_ok [OF assms(1-5)] by (simp add: Let_def page_record_def)
qed

theorem content_of_page_range_witness:
  "fst (open_and_split_pdf report_env ''/docs/report.pdf'' 2 3 True) =
     Returned
       (''Content from new PDF:'' @ newline @ newline @
        ''--- Page 2 ---'' @ newline @ ''Two'' @ newline @
        ''--- Page 3 ---'' @ newline @ ''Three'')"
proof -
  have x: "path_exists report_env ''/docs/report.pdf''"
    by (simp add: report_env_def fs_env_def)
  have l: "3 \<le> int (length (pages_of (document_of report_pages)))"
    by (simp add: report_doc) (simp add: report_pages_def)
  have o: "open_wb report_env f = None" for f by (simp add: report_env_def fs_env_def)
  have w: "writer_write report_env f sel = None" for f sel
    by (simp add: report_env_def fs_env_def)
  from content_of_page_range [OF report_valid x report_reader(1) l report_pages_2_3 o w, of True]
  show ?thesis by (simp add: str_int_2_3)
qed

text \<open>
  Without the condition on the write, C1 fails where the directory cannot be written
  to: the parameters are valid, the document exists and opens with five pages, all of
  them readable, and the request for pages 2 to 3 with \<open>save_pdf\<close> returns an error,
  not the content.
\<close>

theorem content_withheld_when_save_fails:
  "PDFSplitParams ''/docs/report.pdf'' 2 3 True =
     Inr \<lparr>file_path = ''/docs/report.pdf'', start_page = 2, end_page = 3, save_pdf = True\<rparr> \<and>
   path_exists readonly_env ''/docs/report.pdf'' \<and>
   pdf_reader readonly_env ''/docs/report.pdf'' = Inr (document_of report_pages) \<and>
   pages_of (document_of report_pages) = report_pages \<and>
   3 \<le> int (length report_pages) \<and>
   map extract_text report_pages = map Inr [''One'', ''Two'', ''Three'', ''Four'', ''Five''] \<and>
   fst (open_and_split_pdf readonly_env ''/docs/report.pdf'' 2 3 True) =
     Returned (''Error reading PDF '' @ quote @ ''/docs/report.pdf'' @ quote @
               '': Permission denied'')"
proof -
  have v: "PDFSplitParams ''/docs/report.pdf'' 2 3 True =
     Inr \<lparr>file_path = ''/docs/report.pdf'', start_page = 2, end_page = 3, save_pdf = True\<rparr>"
    by (rule report_valid) simp_all
  have x: "path_exists readonly_env ''/docs/report.pdf''"
    by (simp add: readonly_env_def report_env_def fs_env_def)
  have l: "3 \<le> int (length report_pages)" by (simp add: report_pages_def)
  then have l': "3 \<le> int (length (pages_of (document_of report_pages)))"
    by (simp only: report_doc)
  have t: "map extract_text report_pages = map Inr [''One'', ''Two'', ''Three'', ''Four'', ''Five'']"
    by (simp add: report_pages_def text_page_def)
  have o: "open_wb readonly_env f = Some ''Permission denied''" for f
    by (simp add: readonly_env_def)
  have res: "fst (open_and_split_pdf readonly_env ''/docs/report.pdf'' 2 3 True) =
     Returned (''Error reading PDF '' @ quote @ ''/docs/report.pdf'' @ quote @
               '': Permission denied'')"
    by (simp add: run_ok [OF v x report_reader(3) l' report_pages_2_3] Let_def o)
  from v x report_reader(3) report_doc l t res show ?thesis by (intro conjI)
qed

text \<open>
  C2. The range error is what the tool returns for an \<open>end_page\<close> beyond the document
  as long as the logging line can format the page numbers. For an \<open>end_page\<close> of more
  digits than the conversion limit the call on the five-page report does not return the
  range error: the conversion in the logging line raises, outside both \<open>try\<close> blocks,
  and the exception leaves the tool before any call is made.
\<close>

theorem range_error_lost_beyond_digit_limit:
  "PDFSplitParams ''/docs/report.pdf'' 1 (10 ^ int_max_str_digits) False =
     Inr \<lparr>file_path = ''/docs/report.pdf'', start_page = 1,
          end_page = 10 ^ int_max_str_digits, save_pdf = False\<rparr> \<and>
   path_exists report_env ''/docs/report.pdf'' \<and>
   pdf_reader report_env ''/docs/report.pdf'' = Inr (document_of report_pages) \<and>
   int (length (pages_of (document_of report_pages))) < 10 ^ int_max_str_digits \<and>
   open_and_split_pdf report_env ''/docs/report.pdf'' 1 (10 ^ int_max_str_digits) False =
     (Raised int_str_limit_error, [])"
proof -
  have v: "PDFSplitParams ''/docs/report.pdf'' 1 (10 ^ int_max_str_digits) False =
     Inr \<lparr>file_path = ''/docs/report.pdf'', start_page = 1,
          end_page = 10 ^ int_max_str_digits, save_pdf = False\<rparr>"
    by (rule limit_valid) (simp add: strip_def isspace_def)
  have x: "path_exists report_env ''/docs/report.pdf''"
    by (simp add: report_env_def fs_env_def)
  have "convertible (int (length (pages_of (document_of report_pages))))"
    by (rule page_count_convertible [of _ "document_of report_pages"]) simp_all
  then have l: "int (length (pages_of (document_of report_pages))) < 10 ^ int_max_str_digits"
    by (simp add: convertible_iff)
  note res = run_not_logged [OF v limit_not_convertible, of report_env]
  from v x report_reader(1) l res show ?thesis by (intro conjI)
qed

text \<open>
  C3. For every request that breaks a validation rule (the path is empty or blank after
  trimming, \<open>start_page\<close> is below 1, \<open>end_page\<close> is below 1, or \<open>end_page\<close> is below
  \<open>start_page\<close>), the tool returns the validation error string for a non-empty list of
  line errors and makes no call at all, whatever the filesystem holds: the result is not
  the not-found error, also when the path does not exist.
\<close>

theorem invalid_request_rejected_before_io:
  assumes "strip fp = [] \<or> s < 1 \<or> e < 1 \<or> e < s"
  shows "\<exists>errors. errors \<noteq> [] \<and>
           open_and_split_pdf env fp s e sv =
             (Returned (''Error: Invalid input parameters - '' @ validation_error_str env errors),
              []) \<and>
           fst (open_and_split_pdf env fp s e sv) \<noteq>
             Returned (''Error: File '' @ quote @ fp @ quote @ '' does not exist'')"
proof -
  let ?errors = "validate_file_path fp @ validate_start_page s @ validate_end_page s e"
  from PDFSplitParams_rejects [OF assms, of sv]
  have ne: "?errors \<noteq> []" and inl: "PDFSplitParams fp s e sv = Inl ?errors" by simp_all
  have res: "open_and_split_pdf env fp s e sv =
      (Returned (''Error: Invalid input parameters - '' @ validation_error_str env ?errors), [])"
    by (simp add: open_and_split_pdf_def inl)
  have "fst (open_and_split_pdf env fp s e sv) \<noteq>
      Returned (''Error: File '' @ quote @ fp @ quote @ '' does not exist'')"
    by (simp add: res)
  with ne res show ?thesis by (intro exI [of _ ?errors] conjI)
qed

theorem invalid_request_rejected_before_io_witness:
  "\<not> path_exists report_env ''   '' \<and>
   (\<exists>errors. errors \<noteq> [] \<and>
      open_and_split_pdf report_env ''   '' 3 2 False =
        (Returned (''Error: Invalid input parameters - '' @
                   validation_error_str report_env errors), []) \<and>
      fst (open_and_split_pdf report_env ''   '' 3 2 False) \<noteq>
        Returned (''Error: File '' @ quote @ ''   '' @ quote @ '' does not exist''))"
proof -
  have h: "strip ''   '' = [] \<or> (3::int) < 1 \<or> (2::int) < 1 \<or> (2::int) < 3" by simp
  have n: "\<not> path_exists report_env ''   ''" by (simp add: report_env_def fs_env_def)
  from n invalid_request_rejected_before_io [OF h, of report_env False] show ?thesis
    by (rule conjI)
qed

text \<open>
  C4. The not-found error is what the tool returns for a missing file as long as the
  logging line can format the page numbers, and the reader is then never opened. For an
  \<open>end_page\<close> of more digits than the conversion limit the call on a missing file does
  not return the not-found error: the conversion in the logging line raises, outside
  both \<open>try\<close> blocks, and the exception leaves the tool before the existence check.
\<close>

theorem not_found_lost_beyond_digit_limit:
  "PDFSplitParams ''/docs/missing.pdf'' 1 (10 ^ int_max_str_digits) False =
     Inr \<lparr>file_path = ''/docs/missing.pdf'', start_page = 1,
          end_page = 10 ^ int_max_str_digits, save_pdf = False\<rparr> \<and>
   \<not> path_exists report_env ''/docs/missing.pdf'' \<and>
   open_and_split_pdf report_env ''/docs/missing.pdf'' 1 (10 ^ int_max_str_digits) False =
     (Raised int_str_limit_error, [])"
proof -
  have v: "PDFSplitParams ''/docs/missing.pdf'' 1 (10 ^ int_max_str_digits) False =
     Inr \<lparr>file_path = ''/docs/missing.pdf'', start_page = 1,
          end_page = 10 ^ int_max_str_digits, save_pdf = False\<rparr>"
    by (rule limit_valid) (simp add: strip_def isspace_def)
  have n: "\<not> path_exists report_env ''/docs/missing.pdf''"
    by (simp add: report_env_def fs_env_def)
  note res = run_not_logged [OF v limit_not_convertible, of report_env]
  from v n res show ?thesis by (intro conjI)
qed

text \<open>
  C5. For every request with \<open>save_pdf\<close> set whose pages were all read and whose output
  file cannot be written (opening it for writing raises, or writing the document raises),
  the tool returns the error string with the cause of the write failure; the content
  that was already computed is not returned.
\<close>

theorem save_failure_aborts:
  assumes "PDFSplitParams fp s e True = Inr p"
    and "path_exists env fp"
    and "pdf_reader env fp = Inr doc"
    and "e \<le> int (length (pages_of doc))"
    and "\<forall>n\<in>set [s..e].
           add_page (pages_of doc ! nat (n - 1)) = None \<and>
           extract_text (pages_of doc ! nat (n - 1)) = Inr (text n)"
    and "open_wb env (str_path (new_file_path p)) = Some ex \<or>
         (open_wb env (str_path (new_file_path p)) = None \<and>
          writer_write env (str_path (new_file_path p))
            (map (\<lambda>n. pages_of doc ! nat (n - 1)) [s..e]) = Some ex)"
  shows "fst (open_and_split_pdf env fp s e True) =
           Returned (''Error reading PDF '' @ quote @ fp @ quote @ '': '' @ ex) \<and>
         fst (open_and_split_pdf env fp s e True) \<noteq>
           Returned (''Content from new PDF:'' @ newline @ newline @
                     join newline (map (\<lambda>n. page_record n (text n)) [s..e]))"
proof -
  from assms(6)
  have res: "fst (open_and_split_pdf env fp s e True) =
           Returned (''Error reading PDF '' @ quote @ fp @ quote @ '': '' @ ex)"
    by (rule disjE) (simp_all add: run_ok [OF assms(1-5)] Let_def)
  have "fst (open_and_split_pdf env fp s e True) \<noteq>
           Returned (''Content from new PDF:'' @ newline @ newline @
                     join newline (map (\<lambda>n. page_record n (text n)) [s..e]))"
    unfolding res by simp
  with res show ?thesis by (rule conjI)
qed

theorem save_failure_aborts_witness:
  "fst (open_and_split_pdf readonly_env ''/docs/report.pdf'' 2 3 True) =
     Returned (''Error reading PDF '' @ quote @ ''/docs/report.pdf'' @ quote @
               '': Permission denied'') \<and>
   fst (open_and_split_pdf readonly_env ''/docs/report.pdf'' 2 3 True) \<noteq>
     Returned
       (''Content from new PDF:'' @ newline @ newline @
        ''--- Page 2 ---'' @ newline @ ''Two'' @ newline @
        ''--- Page 3 ---'' @ newline @ ''Three'')"
proof -
  have x: "path_exists readonly_env ''/docs/report.pdf''"
    by (simp add: readonly_env_def report_env_def fs_env_def)
  have l: "3 \<le> int (length (pages_of (document_of report_pages)))"
    by (simp add: report_doc) (simp add: report_pages_def)
  have o: "open_wb readonly_env f = Some ''Permission denied'' \<or>
      (open_wb readonly_env f = None \<and> writer_write readonly_env f sel = Some ''Permission denied'')"
    for f sel by (simp add: readonly_env_def)
  from save_failure_aborts [OF report_valid x report_reader(3) l report_pages_2_3 o]
  show ?thesis by (simp add: page_record_def str_int_2_3)
qed

text \<open>
  C6, as amended. For every request with validated parameters on an existing document
  with at least \<open>end_page\<close> pages in which the text extraction of some page \<open>k\<close> of the range
  raises, there is a first failing page \<open>j\<close>, at or before \<open>k\<close>: every page of the range
  before \<open>j\<close> is copied and yields its text, and on page \<open>j\<close> the copy raises, or the copy
  succeeds and the extraction raises. The tool returns the error string made of the path
  and the message of that exception, the first one raised; no page record is returned
  and no output file is opened or written. The tool adds no page number to that message.
\<close>

theorem extraction_failure_aborts:
  assumes "PDFSplitParams fp s e sv = Inr p"
    and "path_exists env fp"
    and "pdf_reader env fp = Inr doc"
    and "e \<le> int (length (pages_of doc))"
    and "k \<in> set [s..e]"
    and "extract_text (pages_of doc ! nat (k - 1)) = Inl m"
  shows "\<exists>j ex. j \<in> set [s..k] \<and>
           (\<forall>n\<in>set [s..j - 1].
              add_page (pages_of doc ! nat (n - 1)) = None \<and>
              (\<exists>t. extract_text (pages_of doc ! nat (n - 1)) = Inr t)) \<and>
           raised_by (pages_of doc ! nat (j - 1)) ex \<and>
           fst (open_and_split_pdf env fp s e sv) =
             Returned (''Error reading PDF '' @ quote @ fp @ quote @ '': '' @ ex) \<and>
           (\<forall>f. Open_wb f \<notin> set (snd (open_and_split_pdf env fp s e sv))) \<and>
           (\<forall>f d. Writer_write f d \<notin> set (snd (open_and_split_pdf env fp s e sv)))"
proof -
  from assms(6) obtain m' where bad: "raised_by (pages_of doc ! nat (k - 1)) m'"
    using raised_or_read [of "pages_of doc ! nat (k - 1)"] by auto
  from run_raises [OF assms(1-5) bad]
  obtain j ex tr where j: "j \<in> set [s..k]"
    and before: "\<forall>n\<in>set [s..j - 1].
              add_page (pages_of doc ! nat (n - 1)) = None \<and>
              (\<exists>t. extract_text (pages_of doc ! nat (n - 1)) = Inr t)"
    and r: "raised_by (pages_of doc ! nat (j - 1)) ex"
    and res: "open_and_split_pdf env fp s e sv =
             (Returned (''Error reading PDF '' @ quote @ fp @ quote @ '': '' @ ex), tr)"
    and tr: "set tr \<subseteq> {Path_exists fp, Reader_open fp} \<union>
               (\<Union>n\<in>set [s..e]. set (page_calls (n - 1)))"
    by blast
  have 1: "fst (open_and_split_pdf env fp s e sv) =
             Returned (''Error reading PDF '' @ quote @ fp @ quote @ '': '' @ ex)"
    by (simp only: res fst_conv)
  have 2: "\<forall>f. Open_wb f \<notin> set (snd (open_and_split_pdf env fp s e sv))"
  proof
    fix f
    have "Open_wb f \<notin> {Path_exists fp, Reader_open fp} \<union>
               (\<Union>n\<in>set [s..e]. set (page_calls (n - 1)))"
      by (simp add: page_calls_no_write)
    with tr show "Open_wb f \<notin> set (snd (open_and_split_pdf env fp s e sv))"
      unfolding res snd_conv by blast
  qed
  have 3: "\<forall>f d. Writer_write f d \<notin> set (snd (open_and_split_pdf env fp s e sv))"
  proof (intro allI)
    fix f d
    have "Writer_write f d \<notin> {Path_exists fp, Reader_open fp} \<union>
               (\<Union>n\<in>set [s..e]. set (page_calls (n - 1)))"
      by (simp add: page_calls_no_write)
    with tr show "Writer_write f d \<notin> set (snd (open_and_split_pdf env fp s e sv))"
      unfolding res snd_conv by blast
  qed
  from j before r 1 2 3 show ?thesis by (intro exI [of _ j] exI [of _ ex] conjI)
qed

theorem extraction_failure_aborts_witness:
  "fst (open_and_split_pdf second_broken_env ''a.pdf'' 1 2 True) =
     Returned (''Error reading PDF '' @ quote @ ''a.pdf'' @ quote @ '': boom'') \<and>
   (\<forall>f. Open_wb f \<notin> set (snd (open_and_split_pdf second_broken_env ''a.pdf'' 1 2 True)))"
proof -
  let ?doc = "document_of [text_page ''One'', broken_page ''boom'']"
  have l: "2 \<le> int (length (pages_of ?doc))" by (simp add: broken_docs)
  have k: "(2::int) \<in> set [1..2]" by simp
  have b: "extract_text (pages_of ?doc ! nat (2 - 1)) = Inl ''boom''"
    unfolding broken_docs by (simp add: broken_page_def)
  from extraction_failure_aborts [OF a_pdf_valid broken_exists(2) broken_reader(2) l k b, of True]
  obtain j ex where j: "j \<in> set [1..2]" and rb: "raised_by (pages_of ?doc ! nat (j - 1)) ex"
    and res: "fst (open_and_split_pdf second_broken_env ''a.pdf'' 1 2 True) =
             Returned (''Error reading PDF '' @ quote @ ''a.pdf'' @ quote @ '': '' @ ex)"
    and nw: "\<forall>f. Open_wb f \<notin> set (snd (open_and_split_pdf second_broken_env ''a.pdf'' 1 2 True))"
    by auto
  from j have "j = 1 \<or> j = 2" by auto
  then have "ex = ''boom''"
  proof
    assume "j = 1"
    with rb show ?thesis unfolding broken_docs by (simp add: raised_by_def text_page_def)
  next
    assume "j = 2"
    with rb show ?thesis unfolding broken_docs by (simp add: raised_by_def broken_page_def)
  qed
  with res nw show ?thesis by simp
qed

text \<open>
  As first stated, with an error that identifies the page, C6 fails. In one document
  page 1 cannot be read, in the other page 2; the request for pages 1 to 2 returns the
  same string for both.
\<close>

theorem extraction_error_does_not_name_page:
  "pdf_reader first_broken_env ''a.pdf'' =
     Inr (document_of [broken_page ''boom'', text_page ''Two'']) \<and>
   pages_of (document_of [broken_page ''boom'', text_page ''Two'']) =
     [broken_page ''boom'', text_page ''Two''] \<and>
   pdf_reader second_broken_env ''a.pdf'' =
     Inr (document_of [text_page ''One'', broken_page ''boom'']) \<and>
   pages_of (document_of [text_page ''One'', broken_page ''boom'']) =
     [text_page ''One'', broken_page ''boom''] \<and>
   fst (open_and_split_pdf first_broken_env ''a.pdf'' 1 2 False) =
     Returned (''Error reading PDF '' @ quote @ ''a.pdf'' @ quote @ '': boom'') \<and>
   fst (open_and_split_pdf second_broken_env ''a.pdf'' 1 2 False) =
     Returned (''Error reading PDF '' @ quote @ ''a.pdf'' @ quote @ '': boom'')"
  using broken_reader broken_docs first_broken_run second_broken_run by (intro conjI)

text \<open>
  C7. For every request with \<open>save_pdf\<close> set that succeeds, that is, returns the content:
  the document was opened from the input path, and the one file opened for writing, to
  which the selected pages are written, is the file in the parent directory of the input
  path whose name is the stem of the input path, then \<open>_pgs_\<close>, \<open>start_page\<close>, a hyphen,
  \<open>end_page\<close>, then the suffix of the input path. The run lists every call made: the
  only existence check is the one of the input path, so whether a file exists at the
  output path is never asked; an existing file is written over and the result is the
  content all the same.
\<close>

theorem output_written_beside_input:
  assumes "fst (open_and_split_pdf env fp s e True) = Returned r"
    and "prefix ''Content'' r"
  shows "\<exists>doc text.
           pdf_reader env fp = Inr doc \<and>
           open_and_split_pdf env fp s e True =
             (Returned
                (''Content from new PDF:'' @ newline @ newline @
                 join newline (map (\<lambda>n. page_record n (text n)) [s..e])),
              [Path_exists fp, Reader_open fp] @
              concat (map (\<lambda>n. [Get_page (n - 1), Add_page (n - 1), Get_page (n - 1),
                                 Extract_text (n - 1)]) [s..e]) @
              [Open_wb
                 (str_path
                    \<lparr>path_root = path_root (path_parent (Path fp)),
                     path_parts = path_parts (path_parent (Path fp)) @
                       [path_stem (Path fp) @ ''_pgs_'' @ str_int s @ ''-'' @ str_int e @
                        path_suffix (Path fp)]\<rparr>),
               Writer_write
                 (str_path
                    \<lparr>path_root = path_root (path_parent (Path fp)),
                     path_parts = path_parts (path_parent (Path fp)) @
                       [path_stem (Path fp) @ ''_pgs_'' @ str_int s @ ''-'' @ str_int e @
                        path_suffix (Path fp)]\<rparr>)
                 (map (\<lambda>n. pages_of doc ! nat (n - 1)) [s..e])])"
proof -
  from assms(2) have ne: "\<not> prefix ''Error'' r" using error_not_content by blast
  from assms(1) have nr: "\<not> (\<exists>ex. open_and_split_pdf env fp s e True = (Raised ex, []))"
    by auto
  from assms(1) ne
  have nerr: "\<not> (\<exists>r. fst (open_and_split_pdf env fp s e True) = Returned r \<and> prefix ''Error'' r)"
    by auto
  from run_cases [of env fp s e True] nr nerr
  obtain p doc tx where valid: "PDFSplitParams fp s e True = Inr p"
    and ex: "path_exists env fp"
    and rd: "pdf_reader env fp = Inr doc"
    and len: "e \<le> int (length (pages_of doc))"
    and ok: "\<forall>n\<in>set [s..e]. add_page (pages_of doc ! nat (n - 1)) = None \<and>
               extract_text (pages_of doc ! nat (n - 1)) = Inr (tx n)"
    and o: "open_wb env (str_path (new_file_path p)) = None"
    and w: "writer_write env (str_path (new_file_path p))
              (map (\<lambda>n. pages_of doc ! nat (n - 1)) [s..e]) = None"
    by blast
  from PDFSplitParams_Inr [OF valid]
  have p: "p = \<lparr>file_path = fp, start_page = s, end_page = e, save_pdf = True\<rparr>" by simp
  have calls: "page_calls = (\<lambda>i. [Get_page i, Add_page i, Get_page i, Extract_text i])"
    by (rule ext) (simp add: page_calls_def)
  have "open_and_split_pdf env fp s e True =
             (Returned
                (''Content from new PDF:'' @ newline @ newline @
                 join newline (map (\<lambda>n. page_record n (tx n)) [s..e])),
              [Path_exists fp, Reader_open fp] @
              concat (map (\<lambda>n. [Get_page (n - 1), Add_page (n - 1), Get_page (n - 1),
                                 Extract_text (n - 1)]) [s..e]) @
              [Open_wb (str_path (new_file_path p)),
               Writer_write (str_path (new_file_path p))
                 (map (\<lambda>n. pages_of doc ! nat (n - 1)) [s..e])])"
    unfolding run_ok [OF valid ex rd len ok] calls using o w by (simp add: Let_def)
  then have "open_and_split_pdf env fp s e True =
             (Returned
                (''Content from new PDF:'' @ newline @ newline @
                 join newline (map (\<lambda>n. page_record n (tx n)) [s..e])),
              [Path_exists fp, Reader_open fp] @
              concat (map (\<lambda>n. [Get_page (n - 1), Add_page (n - 1), Get_page (n - 1),
                                 Extract_text (n - 1)]) [s..e]) @
              [Open_wb
                 (str_path
                    \<lparr>path_root = path_root (path_parent (Path fp)),
                     path_parts = path_parts (path_parent (Path fp)) @
                       [path_stem (Path fp) @ ''_pgs_'' @ str_int s @ ''-'' @ str_int e @
                        path_suffix (Path fp)]\<rparr>),
               Writer_write
                 (str_path
                    \<lparr>path_root = path_root (path_parent (Path fp)),
                     path_parts = path_parts (path_parent (Path fp)) @
                       [path_stem (Path fp) @ ''_pgs_'' @ str_int s @ ''-'' @ str_int e @
                        path_suffix (Path fp)]\<rparr>)
                 (map (\<lambda>n. pages_of doc ! nat (n - 1)) [s..e])])"
    unfolding p new_file_path_eq .
  with rd show ?thesis by (intro exI [of _ doc] exI [of _ tx] conjI)
qed

theorem output_written_beside_input_witness:
  "path_exists report_env ''/docs/report_pgs_2-3.pdf'' \<and>
   fst (open_and_split_pdf report_env ''/docs/report.pdf'' 2 3 True) =
     Returned
       (''Content from new PDF:'' @ newline @ newline @
        ''--- Page 2 ---'' @ newline @ ''Two'' @ newline @
        ''--- Page 3 ---'' @ newline @ ''Three'') \<and>
   snd (open_and_split_pdf report_env ''/docs/report.pdf'' 2 3 True) =
     [Path_exists ''/docs/report.pdf'', Reader_open ''/docs/report.pdf'',
      Get_page 1, Add_page 1, Get_page 1, Extract_text 1,
      Get_page 2, Add_page 2, Get_page 2, Extract_text 2,
      Open_wb ''/docs/report_pgs_2-3.pdf'',
      Writer_write ''/docs/report_pgs_2-3.pdf'' [text_page ''Two'', text_page ''Three'']]"
proof -
  let ?run = "open_and_split_pdf report_env ''/docs/report.pdf'' 2 3 True"
  let ?content = "''Content from new PDF:'' @ newline @ newline @
     ''--- Page 2 ---'' @ newline @ ''Two'' @ newline @
     ''--- Page 3 ---'' @ newline @ ''Three''"
  have v: "PDFSplitParams ''/docs/report.pdf'' 2 3 True =
     Inr \<lparr>file_path = ''/docs/report.pdf'', start_page = 2, end_page = 3, save_pdf = True\<rparr>"
    by (rule report_valid) simp_all
  have x: "path_exists report_env ''/docs/report.pdf''"
    by (simp add: report_env_def fs_env_def)
  have x': "path_exists report_env ''/docs/report_pgs_2-3.pdf''"
    by (simp add: report_env_def fs_env_def)
  have l: "3 \<le> int (length (pages_of (document_of report_pages)))"
    by (simp add: report_doc) (simp add: report_pages_def)
  have o: "open_wb report_env f = None" for f by (simp add: report_env_def fs_env_def)
  have w: "writer_write report_env f sel = None" for f sel
    by (simp add: report_env_def fs_env_def)
  have content: "fst ?run = Returned ?content"
    unfolding run_ok [OF v x report_reader(1) l report_pages_2_3]
    by (simp add: Let_def o w page_record_def str_int_2_3)
  have success: "prefix ''Content'' ?content" by simp
  from output_written_beside_input [OF content success, unfolded report_out_path]
  obtain doc where "pdf_reader report_env ''/docs/report.pdf'' = Inr doc"
    and tr: "snd ?run =
      [Path_exists ''/docs/report.pdf'', Reader_open ''/docs/report.pdf''] @
      concat (map (\<lambda>n. [Get_page (n - 1), Add_page (n - 1), Get_page (n - 1),
                         Extract_text (n - 1)]) [2..3]) @
      [Open_wb ''/docs/report_pgs_2-3.pdf'',
       Writer_write ''/docs/report_pgs_2-3.pdf'' (map (\<lambda>n. pages_of doc ! nat (n - 1)) [2..3])]"
    by fastforce
  with report_reader(1) have doc: "pages_of doc = report_pages" by (simp add: report_doc)
  have tr': "snd ?run =
     [Path_exists ''/docs/report.pdf'', Reader_open ''/docs/report.pdf'',
      Get_page 1, Add_page 1, Get_page 1, Extract_text 1,
      Get_page 2, Add_page 2, Get_page 2, Extract_text 2,
      Open_wb ''/docs/report_pgs_2-3.pdf'',
      Writer_write ''/docs/report_pgs_2-3.pdf'' [text_page ''Two'', text_page ''Three'']]"
    unfolding tr doc by (simp add: report_pages_def)
  from x' content tr' show ?thesis by (intro conjI)
qed

text \<open>
  C8. Failures inside the two \<open>try\<close> blocks come back as strings that begin with
  \<open>Error\<close>, but the logging line between the blocks is not guarded. For the valid request
  for pages 2 up to a page number of more digits than the conversion limit, on the
  existing five-page report, the conversion in that line raises and the exception leaves
  the tool: no string is returned and no call is made.
\<close>

theorem exception_leaves_the_tool:
  "PDFSplitParams ''/docs/report.pdf'' 2 (10 ^ int_max_str_digits) True =
     Inr \<lparr>file_path = ''/docs/report.pdf'', start_page = 2,
          end_page = 10 ^ int_max_str_digits, save_pdf = True\<rparr> \<and>
   open_and_split_pdf report_env ''/docs/report.pdf'' 2 (10 ^ int_max_str_digits) True =
     (Raised int_str_limit_error, []) \<and>
   (\<forall>r. fst (open_and_split_pdf report_env ''/docs/report.pdf'' 2
              (10 ^ int_max_str_digits) True) \<noteq> Returned r)"
proof -
  have "(2::int) \<le> 10 ^ 1" by simp
  also have "(10::int) ^ 1 \<le> 10 ^ int_max_str_digits"
    by (rule power_increasing) (simp_all add: int_max_str_digits_def)
  finally have le: "(2::int) \<le> 10 ^ int_max_str_digits" .
  have v: "PDFSplitParams ''/docs/report.pdf'' 2 (10 ^ int_max_str_digits) True =
     Inr \<lparr>file_path = ''/docs/report.pdf'', start_page = 2,
          end_page = 10 ^ int_max_str_digits, save_pdf = True\<rparr>"
    using le by (intro report_valid) simp_all
  note res = run_not_logged [OF v limit_not_convertible, of report_env]
  have "\<forall>r. fst (open_and_split_pdf report_env ''/docs/report.pdf'' 2
              (10 ^ int_max_str_digits) True) \<noteq> Returned r"
    unfolding res by simp
  with v res show ?thesis by (intro conjI)
qed

text \<open>
  C9. For every request that passes validation and the range check, every index \<open>i\<close> at
  which \<open>reader.pages[i]\<close> is read lies between \<open>start_page - 1\<close> and \<open>end_page - 1\<close>, so
  \<open>0 \<le> i < page_count\<close>, and the read returns the page at that index: it does not raise
  and does not count from the end.
\<close>

theorem page_access_in_bounds:
  assumes "PDFSplitParams fp s e sv = Inr p"
    and "path_exists env fp"
    and "pdf_reader env fp = Inr doc"
    and "e \<le> int (length (pages_of doc))"
    and "Get_page i \<in> set (snd (open_and_split_pdf env fp s e sv))"
  shows "s - 1 \<le> i \<and> i \<le> e - 1 \<and> 0 \<le> i \<and> i < int (length (pages_of doc)) \<and>
         get_page (pages_of doc) i = Inr (pages_of doc ! nat i)"
proof -
  from PDFSplitParams_Inr [OF assms(1)] have s: "1 \<le> s" by simp
  from run_trace [OF assms(1), of env] assms(5)
  have "Get_page i \<in> (\<Union>j\<in>set [s - 1..e - 1]. set (page_calls j))" by auto
  then have i: "s - 1 \<le> i \<and> i \<le> e - 1" by (auto simp add: page_calls_def)
  with s assms(4) have b: "0 \<le> i" "i < int (length (pages_of doc))" by simp_all
  from i b get_page_in_range [OF b] show ?thesis by simp
qed

theorem page_access_in_bounds_witness:
  "Get_page 2 \<in> set (snd (open_and_split_pdf report_env ''/docs/report.pdf'' 2 3 False)) \<and>
   (0::int) \<le> 2 \<and> 2 < int (length report_pages) \<and>
   get_page report_pages 2 = Inr (text_page ''Three'')"
proof -
  have x: "path_exists report_env ''/docs/report.pdf''"
    by (simp add: report_env_def fs_env_def)
  have l: "3 \<le> int (length (pages_of (document_of report_pages)))"
    by (simp add: report_doc) (simp add: report_pages_def)
  have v: "PDFSplitParams ''/docs/report.pdf'' 2 3 False =
      Inr \<lparr>file_path = ''/docs/report.pdf'', start_page = 2, end_page = 3, save_pdf = False\<rparr>"
    by (rule report_valid) simp_all
  have g: "Get_page 2 \<in> set (snd (open_and_split_pdf report_env ''/docs/report.pdf'' 2 3 False))"
    unfolding run_ok [OF v x report_reader(1) l report_pages_2_3]
    by (simp add: Let_def page_calls_def)
  have t: "report_pages ! 2 = text_page ''Three''" by (simp add: report_pages_def)
  from page_access_in_bounds [OF v x report_reader(1) l g, unfolded report_doc] g
  show ?thesis by (simp add: t)
qed



end
